theory Spec2Isabelle
  imports Complex_Main
begin

chapter \<open>Bibliotheca: rate limiter, response cache, search proxy and tracking layer\<close>

text \<open>
  A shallow embedding of the Express server of the repository (the server with
  authentication and tracking, and the earlier \<^verbatim>\<open>server.js\<close>, whose limiter, cache and
  search handler are the same code), of the schema of \<^verbatim>\<open>database/migrate.js\<close> and of the
  SQL statements the handlers send.

  Time is the value of \<^verbatim>\<open>Date.now()\<close>, an integer number of milliseconds, and is passed
  to every operation that reads the clock. Mutable module state (the cache \<^verbatim>\<open>Map\<close>, the
  limiter's counters, the database) is passed in and returned. A handler's
  \<^verbatim>\<open>try/catch\<close> is a case distinction on a result of a sum type.

  A string is the list of its characters. The character type has 256 values: the
  strings of the embedding are the texts whose characters are below U+0100, for which
  the length of the list is the \<^verbatim>\<open>length\<close> of the JavaScript string and the number of
  characters PostgreSQL counts.
\<close>

section \<open>JavaScript values and string helpers\<close>

text \<open>\<^verbatim>\<open>a || b\<close> on strings: the empty string is the only falsy string.\<close>

definition js_or_str :: "string \<Rightarrow> string \<Rightarrow> string" where
  "js_or_str a b = (if a = [] then b else a)"

text \<open>\<^verbatim>\<open>a || b\<close> on numbers, where \<open>None\<close> is \<^verbatim>\<open>NaN\<close>: zero and \<^verbatim>\<open>NaN\<close> are falsy.\<close>

definition js_or_num :: "int option \<Rightarrow> int \<Rightarrow> int" where
  "js_or_num a b = (case a of None \<Rightarrow> b | Some n \<Rightarrow> if n = 0 then b else n)"

text \<open>\<^verbatim>\<open>Array.prototype.join\<close>.\<close>

fun js_join :: "string \<Rightarrow> string list \<Rightarrow> string" where
  "js_join sep [] = []"
| "js_join sep [x] = x"
| "js_join sep (x # y # ys) = x @ sep @ js_join sep (y # ys)"

text \<open>\<^verbatim>\<open>String.prototype.replace\<close> with a string pattern: the first occurrence only.\<close>

fun replace_first :: "string \<Rightarrow> string \<Rightarrow> string \<Rightarrow> string" where
  "replace_first pat rep [] = (if pat = [] then rep else [])"
| "replace_first pat rep (c # cs) =
     (if take (length pat) (c # cs) = pat then rep @ drop (length pat) (c # cs)
      else c # replace_first pat rep cs)"

text \<open>
  \<^verbatim>\<open>String.prototype.trim\<close>. Of the characters below U+0100, ECMAScript's white space
  and line terminators are the space, tab, line feed, vertical tab, form feed,
  carriage return and the no-break space U+00A0.
\<close>

definition is_space :: "char \<Rightarrow> bool" where
  "is_space c =
     (c \<in> set [CHR '' '', CHR 0x09, CHR 0x0A, CHR 0x0B, CHR 0x0C, CHR 0x0D, CHR 0xA0])"

definition js_trim :: "string \<Rightarrow> string" where
  "js_trim s = rev (dropWhile is_space (rev (dropWhile is_space s)))"

text \<open>A number in a template literal: its decimal digits.\<close>

definition digit_char :: "nat \<Rightarrow> char" where
  "digit_char d = char_of (48 + d)"

fun show_nat :: "nat \<Rightarrow> string" where
  "show_nat n = (if n < 10 then [digit_char n] else show_nat (n div 10) @ [digit_char (n mod 10)])"

section \<open>HTTP responses\<close>

text \<open>
  A header value is what \<^verbatim>\<open>res.setHeader\<close> was given, a number or a string;
  \<^verbatim>\<open>res.getHeader\<close> returns it as it was set, or \<^verbatim>\<open>undefined\<close> (\<open>None\<close>).
\<close>

datatype hval = HNum int | HStr string

type_synonym headers = "(string \<times> hval) list"

definition getHeader :: "string \<Rightarrow> headers \<Rightarrow> hval option" where
  "getHeader name hs = map_of hs name"

definition setHeader :: "string \<Rightarrow> hval \<Rightarrow> headers \<Rightarrow> headers" where
  "setHeader name v hs = (name, v) # filter (\<lambda>p. fst p \<noteq> name) hs"

text \<open>\<^verbatim>\<open>x || '50'\<close> on a header value: \<^verbatim>\<open>undefined\<close>, \<^verbatim>\<open>0\<close> and \<^verbatim>\<open>''\<close> are falsy.\<close>

definition hval_or :: "hval option \<Rightarrow> hval \<Rightarrow> hval" where
  "hval_or x d =
     (case x of None \<Rightarrow> d
      | Some (HNum n) \<Rightarrow> if n = 0 then d else HNum n
      | Some (HStr s) \<Rightarrow> if s = [] then d else HStr s)"

text \<open>
  \<^verbatim>\<open>parseInt\<close> of a header value without a radix, \<open>None\<close> for \<^verbatim>\<open>NaN\<close>. A string is read
  after its leading white space as an optional sign and then, behind a prefix
  \<^verbatim>\<open>0x\<close> or \<^verbatim>\<open>0X\<close>, its leading hexadecimal digits, and without the prefix its leading
  decimal digits; no digit gives \<^verbatim>\<open>NaN\<close>. A number is read through its decimal
  representation, which gives an integer back (the representation of an integer has
  no exponent below \<^verbatim>\<open>1e21\<close>, and the numbers the limiter writes are far below).
\<close>

definition digit_of :: "nat \<Rightarrow> char \<Rightarrow> nat option" where
  "digit_of radix c =
     (let n = (of_char c :: nat);
          v = (if 48 \<le> n \<and> n \<le> 57 then Some (n - 48)
               else if 97 \<le> n \<and> n \<le> 102 then Some (n - 87)
               else if 65 \<le> n \<and> n \<le> 70 then Some (n - 55)
               else None)
      in case v of None \<Rightarrow> None | Some k \<Rightarrow> if k < radix then Some k else None)"

fun read_digits :: "nat \<Rightarrow> nat \<Rightarrow> string \<Rightarrow> nat" where
  "read_digits radix acc [] = acc"
| "read_digits radix acc (c # cs) =
     (case digit_of radix c of
        None \<Rightarrow> acc
      | Some k \<Rightarrow> read_digits radix (radix * acc + k) cs)"

definition read_radix :: "nat \<Rightarrow> string \<Rightarrow> int option" where
  "read_radix radix s =
     (case s of
        [] \<Rightarrow> None
      | c # cs \<Rightarrow>
          (case digit_of radix c of
             None \<Rightarrow> None
           | Some k \<Rightarrow> Some (int (read_digits radix 0 s))))"

definition read_unsigned :: "string \<Rightarrow> int option" where
  "read_unsigned s =
     (if take 2 s = ''0x'' \<or> take 2 s = ''0X'' then read_radix 16 (drop 2 s)
      else read_radix 10 s)"

definition parseInt :: "hval option \<Rightarrow> int option" where
  "parseInt x =
     (case x of None \<Rightarrow> None
      | Some (HNum n) \<Rightarrow> Some n
      | Some (HStr s) \<Rightarrow>
          (case dropWhile is_space s of
             [] \<Rightarrow> None
           | c # cs \<Rightarrow>
               if c = CHR ''-'' then map_option uminus (read_unsigned cs)
               else if c = CHR ''+'' then read_unsigned cs
               else read_unsigned (c # cs)))"

text \<open>
  The JSON bodies the handlers send, and the page with which Express answers an
  exception that no handler catches (\<open>ErrorPage\<close>). A timestamp that the source renders
  with \<^verbatim>\<open>toISOString()\<close> is kept as its number of milliseconds.
\<close>

record image_links =
  thumbnail :: "string option"

record volume_info =
  vi_title :: "string option"
  vi_subtitle :: "string option"
  vi_authors :: "string list option"
  vi_publishedDate :: "string option"
  vi_description :: "string option"
  vi_imageLinks :: "image_links option"
  vi_pageCount :: "int option"
  vi_categories :: "string list option"
  vi_averageRating :: "rat option"
  vi_ratingsCount :: "int option"
  vi_language :: "string option"
  vi_previewLink :: "string option"
  vi_infoLink :: "string option"

record item =
  item_id :: "string option"
  volumeInfo :: "volume_info option"

record gb_data =
  gb_items :: "item list option"
  gb_totalItems :: "int option"

record book =
  bk_id :: "string option"
  bk_googleBooksId :: "string option"
  bk_title :: "string option"
  bk_subtitle :: "string option"
  bk_authors :: "string list"
  bk_author :: string
  bk_publishedDate :: "string option"
  bk_description :: string
  bk_cover :: "string option"
  bk_pageCount :: "int option"
  bk_categories :: "string list"
  bk_series :: string
  bk_averageRating :: "rat option"
  bk_ratingsCount :: "int option"
  bk_language :: "string option"
  bk_previewLink :: "string option"
  bk_infoLink :: "string option"

record response_data =
  rd_books :: "book list"
  rd_totalItems :: int
  rd_query :: string

record user_view =
  uv_id :: nat
  uv_email :: string
  uv_name :: "string option"
  uv_createdAt :: int

datatype body =
    ErrorBody string
  | ErrorDetails string string
  | LimitExceeded string int
  | SearchResults response_data
  | RateStatus int int "int option"
  | ValidationErrors "string list"
  | AuthOk string user_view
  | Success string
  | ErrorPage

record response =
  status :: nat
  headers :: headers
  body :: body

section \<open>The response cache\<close>

text \<open>
  \<^verbatim>\<open>const cache = new Map()\<close>: from the upstream URL to \<^verbatim>\<open>{ data, timestamp }\<close>.
\<close>

type_synonym 'v cache = "string \<rightharpoonup> ('v \<times> int)"

definition CACHE_TTL :: int where
  "CACHE_TTL = 3600000"

text \<open>
  \<^verbatim>\<open>getCachedOrFetch\<close>: the data of a present entry younger than the time to live; an
  entry that is not is deleted, and \<^verbatim>\<open>null\<close> (\<open>None\<close>) is returned.
\<close>

definition getCachedOrFetch :: "int \<Rightarrow> string \<Rightarrow> 'v cache \<Rightarrow> 'v option \<times> 'v cache" where
  "getCachedOrFetch now url c =
     (case c url of
        None \<Rightarrow> (None, c)
      | Some (data, timestamp) \<Rightarrow>
          if now - timestamp < CACHE_TTL then (Some data, c)
          else (None, c(url := None)))"

text \<open>\<^verbatim>\<open>cache.set(url, { data, timestamp: Date.now() })\<close>.\<close>

definition cache_set :: "string \<Rightarrow> 'v \<Rightarrow> int \<Rightarrow> 'v cache \<Rightarrow> 'v cache" where
  "cache_set url data now c = c(url \<mapsto> (data, now))"

text \<open>
  The hourly \<^verbatim>\<open>setInterval\<close> callback: every entry older than the time to live is deleted.
\<close>

definition cache_cleanup :: "int \<Rightarrow> 'v cache \<Rightarrow> 'v cache" where
  "cache_cleanup now c =
     (\<lambda>url. case c url of
        None \<Rightarrow> None
      | Some (data, timestamp) \<Rightarrow> if now - timestamp > CACHE_TTL then None else Some (data, timestamp))"

section \<open>The rate limiter\<close>

text \<open>
  What the server takes from its environment: \<^verbatim>\<open>encodeURIComponent\<close>, the API key read
  from \<^verbatim>\<open>process.env\<close>, the number the limiter writes into the \<^verbatim>\<open>RateLimit-Reset\<close> header
  (from the clock and the end of the window), and the message of the \<^verbatim>\<open>TypeError\<close> the
  runtime throws when a property of \<^verbatim>\<open>undefined\<close> is read.
\<close>

record env =
  encodeURIComponent :: "string \<Rightarrow> string"
  GOOGLE_BOOKS_API_KEY :: string
  rateLimitReset :: "int \<Rightarrow> int \<Rightarrow> int"
  typeErrorMessage :: string

text \<open>The options \<^verbatim>\<open>windowMs: 24 * 60 * 60 * 1000\<close> and \<^verbatim>\<open>max: 50\<close>.\<close>

definition windowMs :: int where
  "windowMs = 24 * 60 * 60 * 1000"

definition max_requests :: nat where
  "max_requests = 50"

text \<open>
  The option \<^verbatim>\<open>handler\<close>: status 429, the fixed message and
  \<^verbatim>\<open>resetTime: new Date(Date.now() + 24 * 60 * 60 * 1000)\<close>.
\<close>

definition limit_handler :: "int \<Rightarrow> headers \<Rightarrow> response" where
  "limit_handler now hs =
     \<lparr>status = 429, headers = hs,
      body = LimitExceeded
        ''Daily search limit exceeded (50 searches per day). Please try again tomorrow.''
        (now + 24 * 60 * 60 * 1000)\<rparr>"

text \<open>
  The limiter's store: for a client identity (\<^verbatim>\<open>req.ip\<close>), the number of requests counted
  in its current window and the time at which that window ends.
\<close>

type_synonym hits = "string \<rightharpoonup> (nat \<times> int)"

text \<open>
  Modelled from the spec: the middleware that \<^verbatim>\<open>rateLimit({...})\<close> of the package
  express-rate-limit returns, which is not among the sources. Per identity it counts
  the requests of a 24-hour window that starts with the identity's first request in
  it; the request just made is counted before the decision.
\<close>

definition count_request :: "int \<Rightarrow> string \<Rightarrow> hits \<Rightarrow> nat \<times> int" where
  "count_request now ip h =
     (case h ip of
        None \<Rightarrow> (1, now + windowMs)
      | Some (n, reset) \<Rightarrow> if now < reset then (Suc n, reset) else (1, now + windowMs))"

text \<open>
  Modelled from the spec: the headers of the option \<^verbatim>\<open>standardHeaders: true\<close>, which
  express-rate-limit (not among the sources) sets on every response: the limit, the
  requests remaining in the window and the reset value.
\<close>

definition rate_headers :: "env \<Rightarrow> int \<Rightarrow> nat \<times> int \<Rightarrow> headers" where
  "rate_headers e now x =
     [(''RateLimit-Limit'', HNum (int max_requests)),
      (''RateLimit-Remaining'', HNum (int (max_requests - fst x))),
      (''RateLimit-Reset'', HNum (rateLimitReset e now (snd x)))]"

text \<open>
  Modelled from the spec: the decision of the express-rate-limit middleware (not
  among the sources). While the count is at most \<^verbatim>\<open>max\<close> the request proceeds
  (\<open>Inr\<close>, with the headers set so far: Express calls the next handler); above it the
  option \<^verbatim>\<open>handler\<close> answers (\<open>Inl\<close>) and the next handler is not called.
\<close>

definition searchLimiter :: "env \<Rightarrow> int \<Rightarrow> string \<Rightarrow> hits \<Rightarrow> (response + headers) \<times> hits" where
  "searchLimiter e now ip h =
     (let x = count_request now ip h;
          hs = rate_headers e now x
      in (if fst x > max_requests then Inl (limit_handler now hs) else Inr hs, h(ip \<mapsto> x)))"

section \<open>The search proxy\<close>

record search_state =
  limiter :: hits
  cache :: "body cache"

text \<open>\<^verbatim>\<open>req.query\<close> of a search request.\<close>

record search_req =
  query :: "string option"
  maxResults :: "string option"
  startIndex :: "string option"

text \<open>
  What \<^verbatim>\<open>await fetch(url)\<close> and \<^verbatim>\<open>await response.json()\<close> come to: an exception with its
  message, a response that is not \<^verbatim>\<open>ok\<close> with its status, or the parsed body.
\<close>

datatype fetch_result = FetchThrows string | FetchStatus nat | FetchOk gb_data

definition GOOGLE_BOOKS_BASE_URL :: string where
  "GOOGLE_BOOKS_BASE_URL = ''https://www.googleapis.com/books/v1/volumes''"

definition search_url :: "env \<Rightarrow> string \<Rightarrow> string \<Rightarrow> string \<Rightarrow> string" where
  "search_url e q mr si =
     GOOGLE_BOOKS_BASE_URL @ ''?q='' @ encodeURIComponent e q @ ''&key='' @ GOOGLE_BOOKS_API_KEY e
       @ ''&maxResults='' @ mr @ ''&startIndex='' @ si"

text \<open>
  \<^verbatim>\<open>item.volumeInfo.description?.substring(0, 300) + '...' || 'No description available'\<close>:
  \<^verbatim>\<open>+\<close> binds tighter than \<^verbatim>\<open>||\<close>, and \<^verbatim>\<open>undefined + '...'\<close> is the string
  \<^verbatim>\<open>'undefined...'\<close>.
\<close>

definition short_description :: "string option \<Rightarrow> string" where
  "short_description d =
     js_or_str ((case d of None \<Rightarrow> ''undefined'' | Some x \<Rightarrow> take 300 x) @ ''...'')
       ''No description available''"

text \<open>\<^verbatim>\<open>imageLinks?.thumbnail?.replace('http:', 'https:') || null\<close>.\<close>

definition cover_of :: "image_links option \<Rightarrow> string option" where
  "cover_of il =
     (case il of
        None \<Rightarrow> None
      | Some l \<Rightarrow>
          (case thumbnail l of
             None \<Rightarrow> None
           | Some t \<Rightarrow>
               (let r = replace_first ''http:'' ''https:'' t in if r = [] then None else Some r)))"

text \<open>\<^verbatim>\<open>categories?.[0] || 'Standalone'\<close>.\<close>

definition series_of :: "string list option \<Rightarrow> string" where
  "series_of cs =
     (case cs of
        None \<Rightarrow> ''Standalone''
      | Some [] \<Rightarrow> ''Standalone''
      | Some (c # _) \<Rightarrow> js_or_str c ''Standalone'')"

definition authors_of :: "string list option \<Rightarrow> string list" where
  "authors_of a = (case a of None \<Rightarrow> [''Unknown Author''] | Some xs \<Rightarrow> xs)"

text \<open>
  The arrow function of \<^verbatim>\<open>data.items?.map\<close>. An item without \<^verbatim>\<open>volumeInfo\<close> makes
  \<^verbatim>\<open>item.volumeInfo.title\<close> throw (\<open>Inl\<close>, with the runtime's message).
\<close>

definition reshape_item :: "env \<Rightarrow> item \<Rightarrow> string + book" where
  "reshape_item e it =
     (case volumeInfo it of
        None \<Rightarrow> Inl (typeErrorMessage e)
      | Some v \<Rightarrow>
          Inr \<lparr>bk_id = item_id it,
               bk_googleBooksId = item_id it,
               bk_title = vi_title v,
               bk_subtitle = vi_subtitle v,
               bk_authors = authors_of (vi_authors v),
               bk_author = js_join '', '' (authors_of (vi_authors v)),
               bk_publishedDate = vi_publishedDate v,
               bk_description = short_description (vi_description v),
               bk_cover = cover_of (vi_imageLinks v),
               bk_pageCount = vi_pageCount v,
               bk_categories = (case vi_categories v of None \<Rightarrow> [] | Some cs \<Rightarrow> cs),
               bk_series = series_of (vi_categories v),
               bk_averageRating = vi_averageRating v,
               bk_ratingsCount = vi_ratingsCount v,
               bk_language = vi_language v,
               bk_previewLink = vi_previewLink v,
               bk_infoLink = vi_infoLink v\<rparr>)"

fun reshape_items :: "env \<Rightarrow> item list \<Rightarrow> string + book list" where
  "reshape_items e [] = Inr []"
| "reshape_items e (it # its) =
     (case reshape_item e it of
        Inl m \<Rightarrow> Inl m
      | Inr b \<Rightarrow> (case reshape_items e its of Inl m \<Rightarrow> Inl m | Inr bs \<Rightarrow> Inr (b # bs)))"

definition search_failed :: "headers \<Rightarrow> string \<Rightarrow> response" where
  "search_failed hs m =
     \<lparr>status = 500, headers = hs,
      body = ErrorDetails ''Failed to search books. Please try again later.'' m\<rparr>"

text \<open>
  The handler of \<^verbatim>\<open>GET /api/books/search\<close>. \<open>hs\<close> are the headers already set on the
  response when the handler is called, \<open>now\<close> is the clock at the cache lookup and
  \<open>later\<close> the clock when the upstream answer is stored.
\<close>

definition search_handler ::
  "env \<Rightarrow> (string \<Rightarrow> fetch_result) \<Rightarrow> int \<Rightarrow> int \<Rightarrow> headers \<Rightarrow> search_req \<Rightarrow> search_state
     \<Rightarrow> response \<times> search_state" where
  "search_handler e fetch now later hs req st =
     (case query req of
        None \<Rightarrow> (\<lparr>status = 400, headers = hs, body = ErrorBody ''Search query is required''\<rparr>, st)
      | Some q \<Rightarrow>
          if q = [] \<or> js_trim q = [] then
            (\<lparr>status = 400, headers = hs, body = ErrorBody ''Search query is required''\<rparr>, st)
          else
            (let url = search_url e q
                   (case maxResults req of None \<Rightarrow> ''15'' | Some m \<Rightarrow> m)
                   (case startIndex req of None \<Rightarrow> ''0'' | Some i \<Rightarrow> i);
                 looked = getCachedOrFetch now url (cache st);
                 st1 = st\<lparr>cache := snd looked\<rparr>
             in case fst looked of
                  Some cachedData \<Rightarrow> (\<lparr>status = 200, headers = hs, body = cachedData\<rparr>, st1)
                | None \<Rightarrow>
                    (case fetch url of
                       FetchThrows m \<Rightarrow> (search_failed hs m, st1)
                     | FetchStatus n \<Rightarrow>
                         (search_failed hs (''Google Books API error: '' @ show_nat n), st1)
                     | FetchOk data \<Rightarrow>
                         (case (case gb_items data of
                                  None \<Rightarrow> Inr []
                                | Some its \<Rightarrow> reshape_items e its) of
                            Inl m \<Rightarrow> (search_failed hs m, st1)
                          | Inr books \<Rightarrow>
                              (let responseData =
                                     \<lparr>rd_books = books,
                                      rd_totalItems = js_or_num (gb_totalItems data) 0,
                                      rd_query = q\<rparr>;
                                   st2 = st1\<lparr>cache :=
                                     cache_set url (SearchResults responseData) later (cache st1)\<rparr>;
                                   remaining = getHeader ''RateLimit-Remaining'' hs;
                                   hs' = setHeader ''X-Searches-Remaining''
                                     (hval_or remaining (HStr ''50'')) hs
                               in (\<lparr>status = 200, headers = hs', body = SearchResults responseData\<rparr>,
                                   st2))))))"

text \<open>
  \<^verbatim>\<open>app.get('/api/books/search', searchLimiter, handler)\<close> (in the earlier server
  \<^verbatim>\<open>app.use('/api/books/search', searchLimiter)\<close> before the route): the limiter first, the
  handler only when the limiter lets the request proceed.
\<close>

definition books_search_route ::
  "env \<Rightarrow> (string \<Rightarrow> fetch_result) \<Rightarrow> int \<Rightarrow> int \<Rightarrow> string \<Rightarrow> search_req \<Rightarrow> search_state
     \<Rightarrow> response \<times> search_state" where
  "books_search_route e fetch now later ip req st =
     (case searchLimiter e now ip (limiter st) of
        (Inl r, h) \<Rightarrow> (r, st\<lparr>limiter := h\<rparr>)
      | (Inr hs, h) \<Rightarrow> search_handler e fetch now later hs req (st\<lparr>limiter := h\<rparr>))"

text \<open>
  \<^verbatim>\<open>app.get('/api/rate-limit-status', searchLimiter, handler)\<close>: the same limiter
  instance, then a handler that reads the headers the limiter has set.
\<close>

definition truthy :: "hval option \<Rightarrow> bool" where
  "truthy x = (case x of None \<Rightarrow> False | Some (HNum n) \<Rightarrow> n \<noteq> 0 | Some (HStr s) \<Rightarrow> s \<noteq> [])"

text \<open>
  The time values of a \<^verbatim>\<open>Date\<close>: at most 8.64e15 milliseconds from 1970, either way.
\<close>

definition valid_time :: "int \<Rightarrow> bool" where
  "valid_time t \<longleftrightarrow> \<bar>t\<bar> \<le> 8640000000000000"

text \<open>
  The status handler has no \<^verbatim>\<open>try/catch\<close>: \<^verbatim>\<open>toISOString()\<close> throws for
  \<^verbatim>\<open>new Date(NaN)\<close> and for a time outside the range of dates, and Express answers an
  uncaught exception with status 500.
\<close>

definition status_handler :: "headers \<Rightarrow> response" where
  "status_handler hs =
     (let remaining = getHeader ''RateLimit-Remaining'' hs;
          limit = getHeader ''RateLimit-Limit'' hs;
          reset = getHeader ''RateLimit-Reset'' hs
      in if truthy reset \<and>
            (case parseInt reset of None \<Rightarrow> True | Some k \<Rightarrow> \<not> valid_time (k * 1000)) then
           \<lparr>status = 500, headers = hs, body = ErrorPage\<rparr>
         else
           \<lparr>status = 200, headers = hs,
            body = RateStatus (js_or_num (parseInt limit) 50) (js_or_num (parseInt remaining) 50)
              (if truthy reset then map_option (\<lambda>k. k * 1000) (parseInt reset) else None)\<rparr>)"

definition rate_limit_status_route ::
  "env \<Rightarrow> int \<Rightarrow> string \<Rightarrow> search_state \<Rightarrow> response \<times> search_state" where
  "rate_limit_status_route e now ip st =
     (case searchLimiter e now ip (limiter st) of
        (Inl r, h) \<Rightarrow> (r, st\<lparr>limiter := h\<rparr>)
      | (Inr hs, h) \<Rightarrow> (status_handler hs, st\<lparr>limiter := h\<rparr>))"

section \<open>The database\<close>

text \<open>
  The tables of \<^verbatim>\<open>database/migrate.js\<close> that the handlers read and write, each a list of
  rows in insertion order with the columns the statements name, and the sequence
  behind each \<^verbatim>\<open>SERIAL\<close> key. A statement is a function on this state, in two steps.
  First its parameters are converted to the types of the columns they go to, a text
  to \<^verbatim>\<open>VARCHAR(n)\<close> or to \<^verbatim>\<open>DATE\<close>; when a parameter is not a value of its type the
  statement raises before it runs, and the database is as before. Then the statement
  runs and checks the constraints the schema declares on what it writes: \<^verbatim>\<open>NOT NULL\<close>,
  \<^verbatim>\<open>UNIQUE\<close> (or the statement's own \<^verbatim>\<open>ON CONFLICT\<close> clause) and, for the user id that
  comes with the request, \<^verbatim>\<open>REFERENCES\<close>; every other foreign key a statement writes is
  an id the same flow has just read from, or inserted into, the referenced table. A
  sequence value is drawn for every insert that runs and is not given back when the
  row is not inserted. Failures of the connection are outside the model.

  The errors are those of SQLSTATE class 22 (data exception: a text too long for its
  column, a text that is no date, a text with the character NUL) and three of class 23
  (integrity constraint violation).
\<close>

datatype db_error = DataException | NotNullViolation | UniqueViolation | ForeignKeyViolation

text \<open>
  No text value of PostgreSQL holds the character NUL, which a JSON string can
  carry: a text parameter with one is refused.
\<close>

definition text_in :: "string \<Rightarrow> bool" where
  "text_in s \<longleftrightarrow> CHR 0x00 \<notin> set s"

text \<open>
  The conversion of a text to \<^verbatim>\<open>VARCHAR(n)\<close>, \<open>None\<close> when it raises: a text of at most
  \<open>n\<close> characters is kept; a longer one is cut to \<open>n\<close> characters when all that is cut
  are spaces, and raises otherwise.
\<close>

definition varchar :: "nat \<Rightarrow> string \<Rightarrow> string option" where
  "varchar n s =
     (if \<not> text_in s then None
      else if length s \<le> n then Some s
      else if list_all (\<lambda>c. c = CHR '' '') (drop n s) then Some (take n s)
      else None)"

text \<open>
  The texts that \<^verbatim>\<open>VARCHAR(n)\<close> takes as they are.
\<close>

definition fits :: "nat \<Rightarrow> string \<Rightarrow> bool" where
  "fits n s \<longleftrightarrow> text_in s \<and> length s \<le> n"

text \<open>
  A parameter that is \<^verbatim>\<open>undefined\<close> or \<^verbatim>\<open>null\<close> (\<open>None\<close>) is sent as \<^verbatim>\<open>NULL\<close>, which every
  type has; another one is converted.
\<close>

definition nullable :: "('a \<Rightarrow> 'b option) \<Rightarrow> 'a option \<Rightarrow> 'b option option" where
  "nullable conv x = (case x of None \<Rightarrow> Some None | Some v \<Rightarrow> map_option Some (conv v))"

text \<open>
  What the statements take from PostgreSQL besides the tables: \<^verbatim>\<open>date_in\<close>, its
  reading of a text as a \<^verbatim>\<open>DATE\<close>. The result is the day, counted from 1 January 1970,
  and \<open>None\<close> when PostgreSQL raises (the text is not in a date syntax it knows, or
  names no day of the calendar).
\<close>

record postgres =
  date_in :: "string \<Rightarrow> int option"

record user_row =
  user_id :: nat
  user_email :: string
  password_hash :: string
  user_name :: "string option"
  created_at :: int

record author_row =
  author_id :: nat
  author_name :: string

record series_row =
  series_id :: nat
  series_name :: string

record book_row =
  book_id :: nat
  google_books_id :: "string option"
  book_title :: string
  cover_url :: "string option"
  published_date :: "int option"
  release_date :: "int option"
  book_series_id :: "nat option"

record book_author_row =
  ba_book_id :: nat
  ba_author_id :: nat
  author_order :: int

record tracked_book_row =
  utb_id :: nat
  utb_user_id :: nat
  utb_book_id :: nat

record db =
  users :: "user_row list"
  users_id_seq :: nat
  authors :: "author_row list"
  authors_id_seq :: nat
  series :: "series_row list"
  series_id_seq :: nat
  books :: "book_row list"
  books_id_seq :: nat
  book_authors :: "book_author_row list"
  user_tracked_books :: "tracked_book_row list"
  user_tracked_books_id_seq :: nat

definition empty_db :: db where
  "empty_db =
     \<lparr>users = [], users_id_seq = 1, authors = [], authors_id_seq = 1, series = [],
      series_id_seq = 1, books = [], books_id_seq = 1, book_authors = [],
      user_tracked_books = [], user_tracked_books_id_seq = 1\<rparr>"

text \<open>
  \<^verbatim>\<open>SELECT ... FROM users WHERE email = $1\<close>. The parameter is an address that
  \<^verbatim>\<open>isEmail\<close> has accepted and \<^verbatim>\<open>normalizeEmail\<close> has rewritten, neither of which lets a
  NUL through.
\<close>

definition select_user_by_email :: "string \<Rightarrow> db \<Rightarrow> user_row list" where
  "select_user_by_email em d = filter (\<lambda>u. user_email u = em) (users d)"

text \<open>
  \<^verbatim>\<open>INSERT INTO users (email, password_hash, name) VALUES ($1, $2, $3) RETURNING ...\<close>,
  once it runs with values of the columns' types; \<^verbatim>\<open>email\<close> is \<^verbatim>\<open>UNIQUE\<close>.
\<close>

definition put_user ::
  "string \<Rightarrow> string \<Rightarrow> string option \<Rightarrow> int \<Rightarrow> db \<Rightarrow> (db_error + user_row) \<times> db" where
  "put_user em ph nm now d =
     (let i = users_id_seq d;
          d1 = d\<lparr>users_id_seq := Suc i\<rparr>;
          u = \<lparr>user_id = i, user_email = em, password_hash = ph, user_name = nm, created_at = now\<rparr>
      in if filter (\<lambda>r. user_email r = em) (users d) \<noteq> [] then (Inl UniqueViolation, d1)
         else (Inr u, d1\<lparr>users := users d @ [u]\<rparr>))"

text \<open>
  The statement with its parameters: \<^verbatim>\<open>email\<close>, \<^verbatim>\<open>password_hash\<close> and \<^verbatim>\<open>name\<close> are
  \<^verbatim>\<open>VARCHAR(255)\<close>.
\<close>

definition insert_user ::
  "string \<Rightarrow> string \<Rightarrow> string option \<Rightarrow> int \<Rightarrow> db \<Rightarrow> (db_error + user_row) \<times> db" where
  "insert_user em ph nm now d =
     (case varchar 255 em of
        None \<Rightarrow> (Inl DataException, d)
      | Some em' \<Rightarrow>
          (case varchar 255 ph of
             None \<Rightarrow> (Inl DataException, d)
           | Some ph' \<Rightarrow>
               (case nullable (varchar 255) nm of
                  None \<Rightarrow> (Inl DataException, d)
                | Some nm' \<Rightarrow> put_user em' ph' nm' now d)))"

text \<open>
  \<^verbatim>\<open>INSERT INTO authors (name) VALUES ($1) ON CONFLICT (name) DO UPDATE SET name = $1
  RETURNING id\<close>, once it runs with a value of the column's type: the id of the row
  inserted, or of the row with that name, whose name is written again.
\<close>

definition put_author :: "string \<Rightarrow> db \<Rightarrow> nat \<times> db" where
  "put_author nm d =
     (let i = authors_id_seq d;
          d1 = d\<lparr>authors_id_seq := Suc i\<rparr>
      in case filter (\<lambda>a. author_name a = nm) (authors d) of
           [] \<Rightarrow> (i, d1\<lparr>authors := authors d @ [\<lparr>author_id = i, author_name = nm\<rparr>]\<rparr>)
         | a # _ \<Rightarrow>
             (author_id a,
              d1\<lparr>authors :=
                   map (\<lambda>r. if author_name r = nm then r\<lparr>author_name := nm\<rparr> else r) (authors d)\<rparr>))"

text \<open>The statement with its parameter: \<^verbatim>\<open>name\<close> is \<^verbatim>\<open>VARCHAR(255)\<close>.\<close>

definition upsert_author :: "string \<Rightarrow> db \<Rightarrow> (db_error + nat) \<times> db" where
  "upsert_author nm d =
     (case varchar 255 nm of
        None \<Rightarrow> (Inl DataException, d)
      | Some v \<Rightarrow> (Inr (fst (put_author v d)), snd (put_author v d)))"

text \<open>The same statement on \<^verbatim>\<open>series\<close>, whose \<^verbatim>\<open>name\<close> is \<^verbatim>\<open>VARCHAR(255)\<close> too.\<close>

definition put_series :: "string \<Rightarrow> db \<Rightarrow> nat \<times> db" where
  "put_series nm d =
     (let i = series_id_seq d;
          d1 = d\<lparr>series_id_seq := Suc i\<rparr>
      in case filter (\<lambda>a. series_name a = nm) (series d) of
           [] \<Rightarrow> (i, d1\<lparr>series := series d @ [\<lparr>series_id = i, series_name = nm\<rparr>]\<rparr>)
         | a # _ \<Rightarrow>
             (series_id a,
              d1\<lparr>series :=
                   map (\<lambda>r. if series_name r = nm then r\<lparr>series_name := nm\<rparr> else r) (series d)\<rparr>))"

definition upsert_series :: "string \<Rightarrow> db \<Rightarrow> (db_error + nat) \<times> db" where
  "upsert_series nm d =
     (case varchar 255 nm of
        None \<Rightarrow> (Inl DataException, d)
      | Some v \<Rightarrow> (Inr (fst (put_series v d)), snd (put_series v d)))"

text \<open>
  The rows of \<^verbatim>\<open>books\<close> with a given \<^verbatim>\<open>google_books_id\<close>: none when the value is
  \<^verbatim>\<open>NULL\<close>, which equals nothing.
\<close>

definition books_by_google_id :: "string option \<Rightarrow> db \<Rightarrow> book_row list" where
  "books_by_google_id gid d =
     (case gid of None \<Rightarrow> [] | Some g \<Rightarrow> filter (\<lambda>b. google_books_id b = Some g) (books d))"

text \<open>
  \<^verbatim>\<open>SELECT id FROM books WHERE google_books_id = $1\<close>. The parameter is compared as
  the text it is, whatever its length.
\<close>

definition select_book_by_google_id :: "string option \<Rightarrow> db \<Rightarrow> db_error + book_row list" where
  "select_book_by_google_id gid d =
     (case gid of
        None \<Rightarrow> Inr []
      | Some g \<Rightarrow> if text_in g then Inr (books_by_google_id gid d) else Inl DataException)"

text \<open>
  \<^verbatim>\<open>INSERT INTO books (google_books_id, title, cover_url, published_date, release_date)
  VALUES ($1, $2, $3, $4, $5) RETURNING id\<close>, once it runs with values of the columns'
  types; \<^verbatim>\<open>title\<close> is \<^verbatim>\<open>NOT NULL\<close> and \<^verbatim>\<open>google_books_id\<close> is \<^verbatim>\<open>UNIQUE\<close>.
\<close>

definition put_book ::
  "string option \<Rightarrow> string option \<Rightarrow> string option \<Rightarrow> int option \<Rightarrow> int option \<Rightarrow> db
     \<Rightarrow> (db_error + nat) \<times> db" where
  "put_book gid ttl cov pd rd d =
     (let i = books_id_seq d;
          d1 = d\<lparr>books_id_seq := Suc i\<rparr>
      in case ttl of
           None \<Rightarrow> (Inl NotNullViolation, d1)
         | Some t \<Rightarrow>
             if books_by_google_id gid d \<noteq> [] then (Inl UniqueViolation, d1)
             else (Inr i,
                   d1\<lparr>books := books d @
                     [\<lparr>book_id = i, google_books_id = gid, book_title = t, cover_url = cov,
                       published_date = pd, release_date = rd, book_series_id = None\<rparr>]\<rparr>))"

text \<open>
  The statement with its parameters: \<^verbatim>\<open>google_books_id\<close> is \<^verbatim>\<open>VARCHAR(255)\<close>, \<^verbatim>\<open>title\<close>
  and \<^verbatim>\<open>cover_url\<close> are \<^verbatim>\<open>VARCHAR(500)\<close>, \<^verbatim>\<open>published_date\<close> and \<^verbatim>\<open>release_date\<close> are
  \<^verbatim>\<open>DATE\<close>.
\<close>

definition insert_book ::
  "postgres \<Rightarrow> string option \<Rightarrow> string option \<Rightarrow> string option \<Rightarrow> string option
     \<Rightarrow> string option \<Rightarrow> db \<Rightarrow> (db_error + nat) \<times> db" where
  "insert_book pg gid ttl cov pd rd d =
     (case nullable (varchar 255) gid of
        None \<Rightarrow> (Inl DataException, d)
      | Some gid' \<Rightarrow>
          (case nullable (varchar 500) ttl of
             None \<Rightarrow> (Inl DataException, d)
           | Some ttl' \<Rightarrow>
               (case nullable (varchar 500) cov of
                  None \<Rightarrow> (Inl DataException, d)
                | Some cov' \<Rightarrow>
                    (case nullable (date_in pg) pd of
                       None \<Rightarrow> (Inl DataException, d)
                     | Some pd' \<Rightarrow>
                         (case nullable (date_in pg) rd of
                            None \<Rightarrow> (Inl DataException, d)
                          | Some rd' \<Rightarrow> put_book gid' ttl' cov' pd' rd' d)))))"

text \<open>
  \<^verbatim>\<open>INSERT INTO book_authors (book_id, author_id, author_order) VALUES ($1, $2, $3)
  ON CONFLICT DO NOTHING\<close>; the primary key is \<^verbatim>\<open>(book_id, author_id)\<close>.
\<close>

definition insert_book_author :: "nat \<Rightarrow> nat \<Rightarrow> int \<Rightarrow> db \<Rightarrow> db" where
  "insert_book_author b a ord d =
     (if filter (\<lambda>r. ba_book_id r = b \<and> ba_author_id r = a) (book_authors d) \<noteq> [] then d
      else d\<lparr>book_authors := book_authors d @
             [\<lparr>ba_book_id = b, ba_author_id = a, author_order = ord\<rparr>]\<rparr>)"

text \<open>\<^verbatim>\<open>UPDATE books SET series_id = $1 WHERE id = $2\<close>.\<close>

definition update_book_series :: "nat \<Rightarrow> nat \<Rightarrow> db \<Rightarrow> db" where
  "update_book_series sid b d =
     d\<lparr>books := map (\<lambda>r. if book_id r = b then r\<lparr>book_series_id := Some sid\<rparr> else r) (books d)\<rparr>"

text \<open>
  \<^verbatim>\<open>INSERT INTO user_tracked_books (user_id, book_id) VALUES ($1, $2) ON CONFLICT DO
  NOTHING\<close>; \<^verbatim>\<open>(user_id, book_id)\<close> is \<^verbatim>\<open>UNIQUE\<close> and \<^verbatim>\<open>user_id\<close> references \<^verbatim>\<open>users\<close>.
  A conflicting row ends the statement before the reference is checked.
\<close>

definition insert_user_tracked_book :: "nat \<Rightarrow> nat \<Rightarrow> db \<Rightarrow> (db_error + unit) \<times> db" where
  "insert_user_tracked_book u b d =
     (let i = user_tracked_books_id_seq d;
          d1 = d\<lparr>user_tracked_books_id_seq := Suc i\<rparr>
      in if filter (\<lambda>r. utb_user_id r = u \<and> utb_book_id r = b) (user_tracked_books d) \<noteq> []
         then (Inr (), d1)
         else if filter (\<lambda>r. user_id r = u) (users d) = [] then (Inl ForeignKeyViolation, d1)
         else (Inr (),
               d1\<lparr>user_tracked_books := user_tracked_books d @
                    [\<lparr>utb_id = i, utb_user_id = u, utb_book_id = b\<rparr>]\<rparr>))"

section \<open>Authentication endpoints\<close>

text \<open>
  The validators of express-validator, and bcrypt and jsonwebtoken behind the
  functions of \<^verbatim>\<open>middleware/auth.js\<close>, are parameters of the handlers: \<^verbatim>\<open>isEmail\<close> and
  \<^verbatim>\<open>normalizeEmail\<close>, \<^verbatim>\<open>hashPassword\<close> (\<^verbatim>\<open>bcrypt.hash\<close> with ten rounds) and
  \<^verbatim>\<open>bcrypt.compare\<close> on strings, and \<^verbatim>\<open>generateToken\<close> (\<^verbatim>\<open>jwt.sign\<close>).
\<close>

record auth_env =
  isEmail :: "string \<Rightarrow> bool"
  normalizeEmail :: "string \<Rightarrow> string"
  hashPassword :: "string \<Rightarrow> string"
  bcrypt_compare :: "string \<Rightarrow> string \<Rightarrow> bool"
  generateToken :: "nat \<Rightarrow> string \<Rightarrow> string"

text \<open>
  A value of a JSON body as \<^verbatim>\<open>express.json()\<close> parses it; a number is kept as the
  rational that its literal denotes.
\<close>

datatype jvalue =
    JNull
  | JBool bool
  | JNumber rat
  | JString string
  | JArray "jvalue list"
  | JObject "(string \<times> jvalue) list"

text \<open>
  \<^verbatim>\<open>comparePassword\<close> of \<^verbatim>\<open>middleware/auth.js\<close>, which awaits \<^verbatim>\<open>bcrypt.compare(password,
  hash)\<close>: a string is compared with the hash; for data that is not a string
  (\<^verbatim>\<open>undefined\<close> is \<open>None\<close>) bcrypt rejects, and the \<^verbatim>\<open>await\<close> throws (the result
  \<open>None\<close>).
\<close>

definition comparePassword :: "auth_env \<Rightarrow> jvalue option \<Rightarrow> string \<Rightarrow> bool option" where
  "comparePassword a password hash =
     (case password of Some (JString s) \<Rightarrow> Some (bcrypt_compare a s hash) | _ \<Rightarrow> None)"

text \<open>
  \<^verbatim>\<open>req.body\<close> of a registration, with the fields as strings; \<open>None\<close> is a field that is
  not sent.
\<close>

record register_req =
  r_email :: "string option"
  r_password :: "string option"
  r_name :: "string option"

text \<open>
  \<^verbatim>\<open>req.body\<close> of a login: the address as a string, the password as the JSON value
  sent, which the route's validator does not restrict; \<open>None\<close> is a field that is not
  sent.
\<close>

record login_req =
  l_email :: "string option"
  l_password :: "jvalue option"

text \<open>A validator reads a field that is not sent as the empty string.\<close>

definition field_string :: "string option \<Rightarrow> string" where
  "field_string x = (case x of None \<Rightarrow> [] | Some v \<Rightarrow> v)"

text \<open>
  \<^verbatim>\<open>body('email').isEmail()\<close>, \<^verbatim>\<open>body('password').isLength({ min: 6 })\<close>,
  \<^verbatim>\<open>body('name').optional()\<close>: the fields that fail, in the order of the chains.
\<close>

definition register_errors :: "auth_env \<Rightarrow> register_req \<Rightarrow> string list" where
  "register_errors a req =
     (if isEmail a (field_string (r_email req)) then [] else [''email'']) @
     (if length (field_string (r_password req)) \<ge> 6 then [] else [''password''])"

text \<open>
  \<^verbatim>\<open>body('email').isEmail()\<close>, \<^verbatim>\<open>body('password').exists()\<close>: a password passes when the
  field is there, whatever its value.
\<close>

definition login_errors :: "auth_env \<Rightarrow> login_req \<Rightarrow> string list" where
  "login_errors a req =
     (if isEmail a (field_string (l_email req)) then [] else [''email'']) @
     (if l_password req \<noteq> None then [] else [''password''])"

definition user_view_of :: "user_row \<Rightarrow> user_view" where
  "user_view_of u =
     \<lparr>uv_id = user_id u, uv_email = user_email u, uv_name = user_name u,
      uv_createdAt = created_at u\<rparr>"

definition json :: "nat \<Rightarrow> body \<Rightarrow> response" where
  "json code b = \<lparr>status = code, headers = [], body = b\<rparr>"

text \<open>The handler of \<^verbatim>\<open>POST /api/auth/register\<close>, after its validation chains.\<close>

definition register :: "auth_env \<Rightarrow> int \<Rightarrow> register_req \<Rightarrow> db \<Rightarrow> response \<times> db" where
  "register a now req d =
     (if register_errors a req \<noteq> [] then (json 400 (ValidationErrors (register_errors a req)), d)
      else
        (let em = normalizeEmail a (field_string (r_email req));
             password = field_string (r_password req);
             nm = (case r_name req of
                     None \<Rightarrow> None
                   | Some n \<Rightarrow> if js_trim n = [] then None else Some (js_trim n))
         in if select_user_by_email em d \<noteq> [] then
              (json 400 (ErrorBody ''Email already registered''), d)
            else
              (case insert_user em (hashPassword a password) nm now d of
                 (Inl err, d1) \<Rightarrow> (json 500 (ErrorBody ''Failed to register user''), d1)
               | (Inr u, d1) \<Rightarrow>
                   (json 201 (AuthOk (generateToken a (user_id u) (user_email u)) (user_view_of u)),
                    d1))))"

text \<open>
  The handler of \<^verbatim>\<open>POST /api/auth/login\<close>, after its validation chains. What
  \<^verbatim>\<open>comparePassword\<close> throws is caught by the handler's \<^verbatim>\<open>catch\<close>, which answers 500.
\<close>

definition login :: "auth_env \<Rightarrow> login_req \<Rightarrow> db \<Rightarrow> response" where
  "login a req d =
     (if login_errors a req \<noteq> [] then json 400 (ValidationErrors (login_errors a req))
      else
        (case select_user_by_email (normalizeEmail a (field_string (l_email req))) d of
           [] \<Rightarrow> json 401 (ErrorBody ''Invalid email or password'')
         | u # _ \<Rightarrow>
             (case comparePassword a (l_password req) (password_hash u) of
                None \<Rightarrow> json 500 (ErrorBody ''Failed to login'')
              | Some isValidPassword \<Rightarrow>
                  if \<not> isValidPassword then json 401 (ErrorBody ''Invalid email or password'')
                  else json 200
                         (AuthOk (generateToken a (user_id u) (user_email u)) (user_view_of u)))))"

section \<open>Tracking a book\<close>

text \<open>
  \<^verbatim>\<open>req.body\<close> of \<^verbatim>\<open>POST /api/tracking/books\<close>, with the fields as strings and the
  authors as a list of strings; \<open>None\<close> is a field that is not sent or is \<^verbatim>\<open>null\<close>.
\<close>

record track_req =
  b_googleBooksId :: "string option"
  b_title :: "string option"
  b_authors :: "string list option"
  b_cover :: "string option"
  b_publishedDate :: "string option"
  b_releaseDate :: "string option"
  b_series :: "string option"

text \<open>
  The loop \<^verbatim>\<open>for (let i = 0; i < authors.length; i++)\<close>, from index \<open>i\<close> over the names
  still to come: create or get the author, then link the book to it with
  \<^verbatim>\<open>author_order\<close> \<open>i + 1\<close>. A statement that raises ends the loop.
\<close>

fun link_authors :: "nat \<Rightarrow> nat \<Rightarrow> string list \<Rightarrow> db \<Rightarrow> (db_error + unit) \<times> db" where
  "link_authors bookId i [] d = (Inr (), d)"
| "link_authors bookId i (authorName # rest) d =
     (case upsert_author authorName d of
        (Inl err, d1) \<Rightarrow> (Inl err, d1)
      | (Inr authorId, d1) \<Rightarrow>
          link_authors bookId (Suc i) rest (insert_book_author bookId authorId (int i + 1) d1))"

text \<open>``Handle authors'': \<^verbatim>\<open>if (authors && authors.length > 0)\<close>, the loop.\<close>

definition handle_authors :: "nat \<Rightarrow> string list option \<Rightarrow> db \<Rightarrow> (db_error + unit) \<times> db" where
  "handle_authors bookId as d =
     (case as of
        None \<Rightarrow> (Inr (), d)
      | Some ns \<Rightarrow> if length ns > 0 then link_authors bookId 0 ns d else (Inr (), d))"

text \<open>
  ``Handle series if provided'': \<^verbatim>\<open>if (series && series !== 'Standalone')\<close>, create or
  get the series and write its id into the book row.
\<close>

definition handle_series :: "nat \<Rightarrow> string option \<Rightarrow> db \<Rightarrow> (db_error + unit) \<times> db" where
  "handle_series bookId sr d =
     (case sr of
        None \<Rightarrow> (Inr (), d)
      | Some s \<Rightarrow>
          if s \<noteq> [] \<and> s \<noteq> ''Standalone'' then
            (case upsert_series s d of
               (Inl err, d1) \<Rightarrow> (Inl err, d1)
             | (Inr seriesId, d1) \<Rightarrow> (Inr (), update_book_series seriesId bookId d1))
          else (Inr (), d))"

text \<open>
  ``First, create or get the book'': the id of the row with the request's Google
  Books id or, when there is none, of a new row, to which the authors and the series
  are then attached. There is no transaction: what the statements before a failing
  one have written stays.
\<close>

definition ensure_book :: "postgres \<Rightarrow> track_req \<Rightarrow> db \<Rightarrow> (db_error + nat) \<times> db" where
  "ensure_book pg req d =
     (case select_book_by_google_id (b_googleBooksId req) d of
        Inl err \<Rightarrow> (Inl err, d)
      | Inr [] \<Rightarrow>
          (case insert_book pg (b_googleBooksId req) (b_title req) (b_cover req)
                  (b_publishedDate req) (b_releaseDate req) d of
             (Inl err, d1) \<Rightarrow> (Inl err, d1)
           | (Inr bookId, d1) \<Rightarrow>
               (case handle_authors bookId (b_authors req) d1 of
                  (Inl err, d2) \<Rightarrow> (Inl err, d2)
                | (Inr linked, d2) \<Rightarrow>
                    (case handle_series bookId (b_series req) d2 of
                       (Inl err, d3) \<Rightarrow> (Inl err, d3)
                     | (Inr updated, d3) \<Rightarrow> (Inr bookId, d3))))
      | Inr (b # _) \<Rightarrow> (Inr (book_id b), d))"

text \<open>
  The handler of \<^verbatim>\<open>POST /api/tracking/books\<close>, called once \<^verbatim>\<open>authenticateToken\<close> has set
  \<^verbatim>\<open>req.user\<close>; \<open>userId\<close> is \<^verbatim>\<open>req.user.userId\<close>. Whatever a statement raises is caught
  by the handler's \<^verbatim>\<open>catch\<close>, which answers 500.
\<close>

definition track_book :: "postgres \<Rightarrow> nat \<Rightarrow> track_req \<Rightarrow> db \<Rightarrow> response \<times> db" where
  "track_book pg userId req d =
     (case ensure_book pg req d of
        (Inl err, d1) \<Rightarrow> (json 500 (ErrorBody ''Failed to track book''), d1)
      | (Inr bookId, d1) \<Rightarrow>
          (case insert_user_tracked_book userId bookId d1 of
             (Inl err, d2) \<Rightarrow> (json 500 (ErrorBody ''Failed to track book''), d2)
           | (Inr ok, d2) \<Rightarrow> (json 200 (Success ''Book tracked successfully''), d2)))"

section \<open>Authentication of the tracking routes\<close>

text \<open>
  \<^verbatim>\<open>authenticateToken\<close> of \<^verbatim>\<open>middleware/auth.js\<close>. \<^verbatim>\<open>verifyToken\<close> (jsonwebtoken behind it)
  is a parameter: the payload \<^verbatim>\<open>{ userId, email }\<close> of a token it accepts, \<open>None\<close> for
  \<^verbatim>\<open>null\<close>.
\<close>

record token_payload =
  tp_userId :: nat
  tp_email :: string

text \<open>\<^verbatim>\<open>String.prototype.split(' ')\<close>, with the segment read so far in reverse.\<close>

fun split_space :: "string \<Rightarrow> string \<Rightarrow> string list" where
  "split_space cur [] = [rev cur]"
| "split_space cur (c # cs) =
     (if c = CHR '' '' then rev cur # split_space [] cs else split_space (c # cur) cs)"

text \<open>
  \<^verbatim>\<open>authHeader && authHeader.split(' ')[1]\<close>, \<open>None\<close> when the result is falsy
  (\<^verbatim>\<open>undefined\<close> or the empty string).
\<close>

definition bearer_token :: "string option \<Rightarrow> string option" where
  "bearer_token authHeader =
     (case authHeader of
        None \<Rightarrow> None
      | Some h \<Rightarrow>
          (case split_space [] h of
             s0 # t # ts \<Rightarrow> if t = [] then None else Some t
           | _ \<Rightarrow> None))"

definition authenticateToken ::
  "(string \<Rightarrow> token_payload option) \<Rightarrow> string option \<Rightarrow> response + token_payload" where
  "authenticateToken verifyToken authHeader =
     (case bearer_token authHeader of
        None \<Rightarrow> Inl (json 401 (ErrorBody ''Access token required''))
      | Some token \<Rightarrow>
          (case verifyToken token of
             None \<Rightarrow> Inl (json 403 (ErrorBody ''Invalid or expired token''))
           | Some decoded \<Rightarrow> Inr decoded))"

text \<open>\<^verbatim>\<open>app.post('/api/tracking/books', authenticateToken, handler)\<close>.\<close>

definition track_book_route ::
  "postgres \<Rightarrow> (string \<Rightarrow> token_payload option) \<Rightarrow> string option \<Rightarrow> track_req \<Rightarrow> db
     \<Rightarrow> response \<times> db" where
  "track_book_route pg verifyToken authHeader req d =
     (case authenticateToken verifyToken authHeader of
        Inl r \<Rightarrow> (r, d)
      | Inr decoded \<Rightarrow> track_book pg (tp_userId decoded) req d)"

section \<open>The server as a sequence of requests\<close>

text \<open>
  The two routes behind the limiter, with what each request brings: for a search the
  upstream's answer, the clock when it is stored and the query string. The server
  handles one request's synchronous part at a time; a request is its arrival time,
  the client's address and the route.
\<close>

datatype gated = Search "string \<Rightarrow> fetch_result" int search_req | Status

type_synonym request = "int \<times> string \<times> gated"

fun serve :: "env \<Rightarrow> request \<Rightarrow> search_state \<Rightarrow> response \<times> search_state" where
  "serve e (now, ip, Search fetch later req) st = books_search_route e fetch now later ip req st"
| "serve e (now, ip, Status) st = rate_limit_status_route e now ip st"

fun serve_all :: "env \<Rightarrow> request list \<Rightarrow> search_state \<Rightarrow> search_state" where
  "serve_all e [] st = st"
| "serve_all e (x # xs) st = serve_all e xs (snd (serve e x st))"

text \<open>The number of requests of a sequence that come from one address.\<close>

definition requests_by :: "string \<Rightarrow> request list \<Rightarrow> nat" where
  "requests_by ip xs = length (filter (\<lambda>x. fst (snd x) = ip) xs)"

text \<open>The number of those that are searches.\<close>

fun is_search :: "gated \<Rightarrow> bool" where
  "is_search (Search fetch later req) = True"
| "is_search Status = False"

definition searches_by :: "string \<Rightarrow> request list \<Rightarrow> nat" where
  "searches_by ip xs = length (filter (\<lambda>x. fst (snd x) = ip \<and> is_search (snd (snd x))) xs)"

text \<open>
  An environment to run the server in: the identity for \<^verbatim>\<open>encodeURIComponent\<close> (right
  on unreserved characters), and the seconds left in the window, rounded up, in the
  reset header.
\<close>

definition env0 :: env where
  "env0 =
     \<lparr>encodeURIComponent = (\<lambda>s. s),
      GOOGLE_BOOKS_API_KEY = ''KEY'',
      rateLimitReset = (\<lambda>now reset. (reset - now + 999) div 1000),
      typeErrorMessage = ''Cannot read properties of undefined (reading 'title')''\<rparr>"

definition state0 :: search_state where
  "state0 = \<lparr>limiter = Map.empty, cache = Map.empty\<rparr>"

text \<open>Sample data: a search for ``dune'', and an upstream volume that has no description.\<close>

definition dune_req :: search_req where
  "dune_req = \<lparr>query = Some ''dune'', maxResults = None, startIndex = None\<rparr>"

definition bare_volume :: volume_info where
  "bare_volume =
     \<lparr>vi_title = Some ''Dune'', vi_subtitle = None, vi_authors = Some [''Frank Herbert''],
      vi_publishedDate = Some ''1965'', vi_description = None, vi_imageLinks = None,
      vi_pageCount = None, vi_categories = None, vi_averageRating = None,
      vi_ratingsCount = None, vi_language = None, vi_previewLink = None, vi_infoLink = None\<rparr>"

definition dune_upstream :: "string \<Rightarrow> fetch_result" where
  "dune_upstream url =
     FetchOk \<lparr>gb_items = Some [\<lparr>item_id = Some ''B1'', volumeInfo = Some bare_volume\<rparr>],
              gb_totalItems = Some 1\<rparr>"

section \<open>The constraints of the schema\<close>

text \<open>
  What \<^verbatim>\<open>database/migrate.js\<close> declares for the tables above, as predicates on a
  database state: primary keys drawn from their sequences, \<^verbatim>\<open>UNIQUE\<close> columns, the
  references between tables, and the types of the text columns.
\<close>

definition users_ok :: "db \<Rightarrow> bool" where
  "users_ok d \<longleftrightarrow>
     distinct (map user_id (users d)) \<and>
     (\<forall>u\<in>set (users d). user_id u < users_id_seq d) \<and>
     distinct (map user_email (users d)) \<and>
     (\<forall>u\<in>set (users d). fits 255 (user_email u) \<and> fits 255 (password_hash u) \<and>
        (case user_name u of None \<Rightarrow> True | Some n \<Rightarrow> fits 255 n))"

definition authors_ok :: "db \<Rightarrow> bool" where
  "authors_ok d \<longleftrightarrow>
     distinct (map author_id (authors d)) \<and>
     (\<forall>a\<in>set (authors d). author_id a < authors_id_seq d) \<and>
     distinct (map author_name (authors d)) \<and>
     (\<forall>a\<in>set (authors d). fits 255 (author_name a))"

definition series_ok :: "db \<Rightarrow> bool" where
  "series_ok d \<longleftrightarrow>
     distinct (map series_id (series d)) \<and>
     (\<forall>s\<in>set (series d). series_id s < series_id_seq d) \<and>
     distinct (map series_name (series d)) \<and>
     (\<forall>s\<in>set (series d). fits 255 (series_name s))"

definition books_ok :: "db \<Rightarrow> bool" where
  "books_ok d \<longleftrightarrow>
     distinct (map book_id (books d)) \<and>
     (\<forall>b\<in>set (books d). book_id b < books_id_seq d) \<and>
     distinct (filter (\<lambda>g. g \<noteq> None) (map google_books_id (books d))) \<and>
     (\<forall>b\<in>set (books d). \<forall>s. book_series_id b = Some s \<longrightarrow> s \<in> series_id ` set (series d)) \<and>
     (\<forall>b\<in>set (books d).
        (case google_books_id b of None \<Rightarrow> True | Some g \<Rightarrow> fits 255 g) \<and>
        fits 500 (book_title b) \<and>
        (case cover_url b of None \<Rightarrow> True | Some c \<Rightarrow> fits 500 c))"

definition book_authors_ok :: "db \<Rightarrow> bool" where
  "book_authors_ok d \<longleftrightarrow>
     distinct (map (\<lambda>r. (ba_book_id r, ba_author_id r)) (book_authors d)) \<and>
     (\<forall>r\<in>set (book_authors d).
        ba_book_id r \<in> book_id ` set (books d) \<and> ba_author_id r \<in> author_id ` set (authors d))"

definition user_tracked_books_ok :: "db \<Rightarrow> bool" where
  "user_tracked_books_ok d \<longleftrightarrow>
     distinct (map utb_id (user_tracked_books d)) \<and>
     (\<forall>r\<in>set (user_tracked_books d). utb_id r < user_tracked_books_id_seq d) \<and>
     distinct (map (\<lambda>r. (utb_user_id r, utb_book_id r)) (user_tracked_books d)) \<and>
     (\<forall>r\<in>set (user_tracked_books d).
        utb_user_id r \<in> user_id ` set (users d) \<and> utb_book_id r \<in> book_id ` set (books d))"

definition schema_ok :: "db \<Rightarrow> bool" where
  "schema_ok d \<longleftrightarrow>
     users_ok d \<and> authors_ok d \<and> series_ok d \<and> books_ok d \<and> book_authors_ok d \<and>
     user_tracked_books_ok d"

text \<open>
  The requests whose values are values of the columns they are written to: for the
  book row a title of at most 500 characters, an id of at most 255, a cover of at
  most 500 and dates that PostgreSQL reads; author names of at most 255 characters;
  a series name of at most 255 characters where the handler stores one. None of the
  texts holds a NUL.
\<close>

definition book_storable :: "postgres \<Rightarrow> track_req \<Rightarrow> bool" where
  "book_storable pg req \<longleftrightarrow>
     (case b_title req of None \<Rightarrow> False | Some t \<Rightarrow> fits 500 t) \<and>
     (case b_googleBooksId req of None \<Rightarrow> True | Some g \<Rightarrow> fits 255 g) \<and>
     (case b_cover req of None \<Rightarrow> True | Some c \<Rightarrow> fits 500 c) \<and>
     (case b_publishedDate req of None \<Rightarrow> True | Some p \<Rightarrow> date_in pg p \<noteq> None) \<and>
     (case b_releaseDate req of None \<Rightarrow> True | Some r \<Rightarrow> date_in pg r \<noteq> None)"

definition authors_storable :: "track_req \<Rightarrow> bool" where
  "authors_storable req \<longleftrightarrow>
     (case b_authors req of None \<Rightarrow> True | Some ns \<Rightarrow> list_all (fits 255) ns)"

definition series_storable :: "track_req \<Rightarrow> bool" where
  "series_storable req \<longleftrightarrow>
     (case b_series req of
        None \<Rightarrow> True
      | Some s \<Rightarrow> s = [] \<or> s = ''Standalone'' \<or> fits 255 s)"

text \<open>
  Sample data: stand-ins for the validators and the primitives (an address is
  anything with an \<^verbatim>\<open>@\<close>, normalised as it is; a hash is the password behind a
  prefix), a stand-in for \<^verbatim>\<open>date_in\<close> that reads the one date of the sample request and,
  like PostgreSQL, not a year alone, and a database with one registered user.
\<close>

definition auth0 :: auth_env where
  "auth0 =
     \<lparr>isEmail = (\<lambda>s. CHR ''@'' \<in> set s),
      normalizeEmail = (\<lambda>s. s),
      hashPassword = (\<lambda>p. ''hash:'' @ p),
      bcrypt_compare = (\<lambda>p h. h = ''hash:'' @ p),
      generateToken = (\<lambda>i em. ''token-for-'' @ em)\<rparr>"

definition pg0 :: postgres where
  "pg0 = \<lparr>date_in = (\<lambda>s. if s = ''1965-08-01'' then Some (- 1614) else None)\<rparr>"

definition one_user_db :: db where
  "one_user_db =
     empty_db\<lparr>users := [\<lparr>user_id = 1, user_email = ''a@b.com'', password_hash = ''hash:secret1'',
                           user_name = None, created_at = 0\<rparr>],
              users_id_seq := 2\<rparr>"

definition x1_req :: track_req where
  "x1_req =
     \<lparr>b_googleBooksId = Some ''X1'', b_title = Some ''A Book'',
      b_authors = Some [''Jane Doe'', ''John Roe''], b_cover = None,
      b_publishedDate = Some ''1965-08-01'', b_releaseDate = None, b_series = None\<rparr>"

chapter \<open>Properties\<close>

section \<open>The cache\<close>

text \<open>
  Claim C2. After \<open>(k, v)\<close> is stored at time \<open>T\<close>, a lookup of \<open>k\<close> at time \<open>T + d\<close>
  with \<open>d\<close> below the time to live (one hour) returns \<open>v\<close> as it was stored and leaves
  the cache as it is, the entry included; with \<open>d\<close> at or above the time to live the
  lookup returns nothing and deletes that entry and no other; and a lookup of a key
  that is not in the cache returns nothing and leaves the cache unchanged.
\<close>

theorem cache_entry_lives_one_hour:
  fixes c :: "'v cache"
  shows "(d < CACHE_TTL \<longrightarrow>
           getCachedOrFetch (T + d) k (cache_set k v T c) = (Some v, cache_set k v T c) \<and>
           cache_set k v T c k = Some (v, T)) \<and>
         (CACHE_TTL \<le> d \<longrightarrow>
           fst (getCachedOrFetch (T + d) k (cache_set k v T c)) = None \<and>
           snd (getCachedOrFetch (T + d) k (cache_set k v T c)) k = None \<and>
           (\<forall>k'. k' \<noteq> k \<longrightarrow> snd (getCachedOrFetch (T + d) k (cache_set k v T c)) k' = c k')) \<and>
         (c k = None \<longrightarrow> getCachedOrFetch now k c = (None, c)) \<and>
         CACHE_TTL = 60 * 60 * 1000"
  by (simp add: getCachedOrFetch_def cache_set_def CACHE_TTL_def)

text \<open>
  An entry stored at time 0 is served at 3599999 and gone at 3600000; looking up an
  absent key changes nothing.
\<close>

theorem cache_entry_lives_one_hour_witness:
  "getCachedOrFetch 3599999 ''u'' (cache_set ''u'' (7::nat) 0 Map.empty)
     = (Some 7, cache_set ''u'' 7 0 Map.empty) \<and>
   fst (getCachedOrFetch 3600000 ''u'' (cache_set ''u'' (7::nat) 0 Map.empty)) = None \<and>
   snd (getCachedOrFetch 3600000 ''u'' (cache_set ''u'' (7::nat) 0 Map.empty)) ''u'' = None \<and>
   getCachedOrFetch 5 ''w'' (cache_set ''u'' (7::nat) 0 Map.empty)
     = (None, cache_set ''u'' (7::nat) 0 Map.empty)"
  using cache_entry_lives_one_hour
          [where d = 3599999 and T = 0 and k = "''u''" and v = "7::nat" and c = Map.empty]
        cache_entry_lives_one_hour
          [where d = 3600000 and T = 0 and k = "''u''" and v = "7::nat" and c = Map.empty]
        cache_entry_lives_one_hour
          [where k = "''w''" and c = "cache_set ''u'' (7::nat) 0 Map.empty" and now = 5]
  by (simp add: CACHE_TTL_def cache_set_def)

text \<open>
  The hourly sweep deletes an entry when its age is above the time to live, the
  lookup stops serving it when its age has reached it: an entry exactly one hour old
  survives the sweep, and the next lookup deletes it.
\<close>

theorem sweep_keeps_what_lookup_drops:
  fixes c :: "'v cache"
  shows "(cache_cleanup now c k = None \<longleftrightarrow>
            c k = None \<or> (\<exists>d t. c k = Some (d, t) \<and> CACHE_TTL < now - t)) \<and>
         (\<forall>d t. c k = Some (d, t) \<and> now - t = CACHE_TTL \<longrightarrow>
            cache_cleanup now c k = Some (d, t) \<and>
            getCachedOrFetch now k c = (None, c(k := None)))"
  by (auto simp: cache_cleanup_def getCachedOrFetch_def split: option.splits)

text \<open>An entry stored at 0, swept and looked up at 3600000, and swept at 3600001.\<close>

theorem sweep_keeps_what_lookup_drops_witness:
  "cache_cleanup 3600000 [''u'' \<mapsto> (7::nat, 0)] ''u'' = Some (7, 0) \<and>
   getCachedOrFetch 3600000 ''u'' [''u'' \<mapsto> (7::nat, 0)] = (None, Map.empty) \<and>
   cache_cleanup 3600001 [''u'' \<mapsto> (7::nat, 0)] ''u'' = None"
proof -
  have a: "[''u'' \<mapsto> (7::nat, 0::int)] ''u'' = Some (7, 0) \<and> 3600000 - 0 = CACHE_TTL"
    by (simp add: CACHE_TTL_def)
  have b: "[''u'' \<mapsto> (7::nat, 0::int)] ''u'' = Some (7, 0) \<and> CACHE_TTL < 3600001 - 0"
    by (simp add: CACHE_TTL_def)
  note t1 = sweep_keeps_what_lookup_drops[of 3600000 "[''u'' \<mapsto> (7::nat, 0)]" "''u''"]
  note t2 = sweep_keeps_what_lookup_drops[of 3600001 "[''u'' \<mapsto> (7::nat, 0)]" "''u''"]
  have 1: "cache_cleanup 3600000 [''u'' \<mapsto> (7::nat, 0)] ''u'' = Some (7, 0) \<and>
           getCachedOrFetch 3600000 ''u'' [''u'' \<mapsto> (7::nat, 0)] = (None, [''u'' \<mapsto> (7::nat, 0)](''u'' := None))"
    using t1[THEN conjunct2] a by blast
  have 2: "cache_cleanup 3600001 [''u'' \<mapsto> (7::nat, 0)] ''u'' = None"
    using t2[THEN conjunct1] b by blast
  show ?thesis using 1 2 by simp
qed

section \<open>The limiter and the search route\<close>

lemma getHeader_setHeader_other:
  "n \<noteq> m \<Longrightarrow> getHeader n (setHeader m v hs) = getHeader n hs"
  by (induction hs) (auto simp: getHeader_def setHeader_def)

lemma search_handler_limiter:
  "limiter (snd (search_handler e fetch now later hs req st)) = limiter st"
  by (auto simp: search_handler_def Let_def search_failed_def
      split: option.splits fetch_result.splits sum.splits)

lemma search_handler_headers:
  "status (fst (search_handler e fetch now later hs req st)) = 200 \<Longrightarrow>
   n \<noteq> ''X-Searches-Remaining'' \<Longrightarrow>
   getHeader n (headers (fst (search_handler e fetch now later hs req st))) = getHeader n hs"
  by (auto simp: search_handler_def Let_def search_failed_def getHeader_setHeader_other
      split: option.splits fetch_result.splits sum.splits if_splits)

lemma searchLimiter_store:
  "snd (searchLimiter e now ip h) = h(ip \<mapsto> count_request now ip h)"
  by (simp add: searchLimiter_def Let_def)

lemma searchLimiter_decision:
  "fst (searchLimiter e now ip h) =
     (if max_requests < fst (count_request now ip h)
      then Inl (limit_handler now (rate_headers e now (count_request now ip h)))
      else Inr (rate_headers e now (count_request now ip h)))"
  by (simp add: searchLimiter_def Let_def)

text \<open>Either route leaves the limiter's store with the request counted, and nothing else.\<close>

lemma serve_limiter:
  "limiter (snd (serve e (now, ip, g) st)) = (limiter st)(ip \<mapsto> count_request now ip (limiter st))"
  by (cases g)
     (auto simp: books_search_route_def rate_limit_status_route_def search_handler_limiter
         searchLimiter_def Let_def split: prod.splits sum.splits)

text \<open>
  While an identity's window is open, its count grows by one with each of its
  requests, whatever other identities do in between.
\<close>

lemma serve_all_counts:
  "limiter st ip = Some (n, reset) \<Longrightarrow> \<forall>x\<in>set xs. fst (snd x) = ip \<longrightarrow> fst x < reset \<Longrightarrow>
   limiter (serve_all e xs st) ip = Some (n + requests_by ip xs, reset)"
proof (induction xs arbitrary: st n)
  case Nil
  then show ?case by (simp add: requests_by_def)
next
  case (Cons x xs)
  obtain now ip' g where x: "x = (now, ip', g)" by (cases x) auto
  let ?st = "snd (serve e x st)"
  have step: "limiter ?st ip = Some (if ip' = ip then Suc n else n, reset)"
    using Cons.prems x by (auto simp: serve_limiter count_request_def)
  have "limiter (serve_all e xs ?st) ip
          = Some ((if ip' = ip then Suc n else n) + requests_by ip xs, reset)"
    using Cons.IH[OF step] Cons.prems(2) by simp
  then show ?case using x by (simp add: requests_by_def)
qed

text \<open>
  A request of the identity at \<open>t0\<close>, when no window of its is open, opens one; the
  identity's request that comes after \<open>pre\<close> in that window is counted as number
  \<open>Suc (requests_by ip pre)\<close>.
\<close>

lemma count_in_window:
  assumes closed: "\<forall>n r. limiter st ip = Some (n, r) \<longrightarrow> r \<le> t0"
    and split: "(t0, ip, g0) # evs = pre @ (now, ip, g) # post"
    and inwin: "\<forall>x\<in>set evs. fst (snd x) = ip \<longrightarrow> fst x < t0 + windowMs"
  shows "count_request now ip (limiter (serve_all e pre st))
           = (Suc (requests_by ip pre), t0 + windowMs)"
proof (cases pre)
  case Nil
  then have "now = t0" using split by simp
  then show ?thesis using closed Nil
    by (cases "limiter st ip") (auto simp: count_request_def requests_by_def)
next
  case (Cons x pre')
  then have x: "x = (t0, ip, g0)" and evs: "evs = pre' @ (now, ip, g) # post"
    using split by simp_all
  have first: "limiter (snd (serve e x st)) ip = Some (1, t0 + windowMs)"
    using closed x by (cases "limiter st ip") (auto simp: serve_limiter count_request_def)
  have "\<forall>y\<in>set pre'. fst (snd y) = ip \<longrightarrow> fst y < t0 + windowMs"
    using inwin evs by simp
  from serve_all_counts[OF first this]
  have "limiter (serve_all e pre st) ip = Some (1 + requests_by ip pre', t0 + windowMs)"
    using Cons by simp
  moreover have "now < t0 + windowMs" using inwin evs by simp
  moreover have "requests_by ip pre = Suc (requests_by ip pre')"
    using Cons x by (simp add: requests_by_def)
  ultimately show ?thesis by (simp add: count_request_def)
qed

text \<open>
  Claim C1, as amended. Take any identity \<open>ip\<close> with no window open at time \<open>t0\<close>, its
  request at \<open>t0\<close> and any requests that follow (searches and status calls, of this and
  of other identities), those of \<open>ip\<close> all within 24 hours of \<open>t0\<close>. The limiter numbers
  the requests of \<open>ip\<close> to the two routes behind it, search and status, in one
  sequence. A search of \<open>ip\<close> that is the \<open>N\<close>-th of these requests in the window is
  passed to the search handler when \<open>N \<le> 50\<close>: the route's result is the handler's.
  When \<open>N \<ge> 51\<close> the answer is status 429 with the fixed daily-limit message and a
  reset time 24 hours after the request, so not before it, and the route does nothing
  else than count the request: the handler is not run and the cache is as before.
\<close>

theorem search_limit_fifty_per_window:
  assumes closed: "\<forall>n r. limiter st ip = Some (n, r) \<longrightarrow> r \<le> t0"
    and split: "(t0, ip, g0) # evs = pre @ (now, ip, Search fetch later req) # post"
    and inwin: "\<forall>x\<in>set evs. fst (snd x) = ip \<longrightarrow> fst x < t0 + windowMs"
    and N: "N = Suc (requests_by ip pre)"
    and sti: "sti = serve_all e pre st"
  shows "(N \<le> 50 \<longrightarrow>
           serve e (now, ip, Search fetch later req) sti =
             search_handler e fetch now later (rate_headers e now (N, t0 + windowMs)) req
               (sti\<lparr>limiter := (limiter sti)(ip \<mapsto> (N, t0 + windowMs))\<rparr>)) \<and>
         (51 \<le> N \<longrightarrow>
           serve e (now, ip, Search fetch later req) sti =
             (\<lparr>status = 429, headers = rate_headers e now (N, t0 + windowMs),
               body = LimitExceeded
                 ''Daily search limit exceeded (50 searches per day). Please try again tomorrow.''
                 (now + 24 * 60 * 60 * 1000)\<rparr>,
              sti\<lparr>limiter := (limiter sti)(ip \<mapsto> (N, t0 + windowMs))\<rparr>) \<and>
           now \<le> now + 24 * 60 * 60 * 1000) \<and>
         windowMs = 24 * 60 * 60 * 1000"
proof -
  have c: "count_request now ip (limiter sti) = (N, t0 + windowMs)"
    using count_in_window[OF closed split inwin] N sti by simp
  show ?thesis
    by (simp add: books_search_route_def searchLimiter_def Let_def c max_requests_def
        limit_handler_def windowMs_def)
qed

text \<open>
  The first request of an identity is passed to the handler; after fifty searches of
  the identity within ten milliseconds its next search is refused.
\<close>

theorem search_limit_fifty_per_window_witness:
  "serve env0 (0, ''10.0.0.1'', Search dune_upstream 1 dune_req) state0 =
     search_handler env0 dune_upstream 0 1 (rate_headers env0 0 (1, 0 + windowMs)) dune_req
       (state0\<lparr>limiter := (limiter state0)(''10.0.0.1'' \<mapsto> (1, 0 + windowMs))\<rparr>) \<and>
   fst (serve env0 (10, ''10.0.0.1'', Search dune_upstream 11 dune_req)
         (serve_all env0
            ((0, ''10.0.0.1'', Search dune_upstream 1 dune_req) #
             replicate 49 (5, ''10.0.0.1'', Search dune_upstream 6 dune_req))
            state0)) =
     \<lparr>status = 429, headers = rate_headers env0 10 (51, 0 + windowMs),
       body = LimitExceeded
         ''Daily search limit exceeded (50 searches per day). Please try again tomorrow.''
         (10 + 24 * 60 * 60 * 1000)\<rparr>"
proof -
  let ?ip = "''10.0.0.1''"
  let ?s = "Search dune_upstream 1 dune_req"
  let ?m = "Search dune_upstream 6 dune_req"
  let ?s' = "Search dune_upstream 11 dune_req"
  have closed: "\<forall>n r. limiter state0 ?ip = Some (n, r) \<longrightarrow> r \<le> 0"
    by (simp add: state0_def)
  have a: "(0, ?ip, ?s) # [] = [] @ (0, ?ip, ?s) # []" by simp
  have a_win: "\<forall>x\<in>set ([] :: request list). fst (snd x) = ?ip \<longrightarrow> fst x < 0 + windowMs"
    by simp
  have a_n: "1 = Suc (requests_by ?ip [])" by (simp add: requests_by_def)
  have b: "(0, ?ip, ?s) # (replicate 49 (5, ?ip, ?m) @ [(10, ?ip, ?s')])
             = ((0, ?ip, ?s) # replicate 49 (5, ?ip, ?m)) @ (10, ?ip, ?s') # []"
    by simp
  have b_win: "\<forall>x\<in>set (replicate 49 (5, ?ip, ?m) @ [(10, ?ip, ?s')]).
                 fst (snd x) = ?ip \<longrightarrow> fst x < 0 + windowMs"
    by (simp add: windowMs_def)
  have b_n: "51 = Suc (requests_by ?ip ((0, ?ip, ?s) # replicate 49 (5, ?ip, ?m)))"
    by (simp add: requests_by_def)
  from search_limit_fifty_per_window[OF closed a a_win a_n refl, of env0]
       search_limit_fifty_per_window[OF closed b b_win b_n refl, of env0]
  show ?thesis by simp
qed

text \<open>
  Claim C1 as stated fails: the status route is behind the same limiter, so the calls
  of the status endpoint are counted in the window too. After fifty of them, with no
  search among them, the identity's first search of the window is refused with 429.
\<close>

theorem first_search_refused_after_status_calls:
  "limiter state0 ''10.0.0.1'' = None \<and>
   searches_by ''10.0.0.1'' ((0, ''10.0.0.1'', Status) # replicate 49 (5, ''10.0.0.1'', Status)) = 0 \<and>
   requests_by ''10.0.0.1'' ((0, ''10.0.0.1'', Status) # replicate 49 (5, ''10.0.0.1'', Status)) = 50 \<and>
   fst (serve env0 (10, ''10.0.0.1'', Search dune_upstream 11 dune_req)
         (serve_all env0 ((0, ''10.0.0.1'', Status) # replicate 49 (5, ''10.0.0.1'', Status))
            state0)) =
     \<lparr>status = 429,
       headers = [(''RateLimit-Limit'', HNum 50), (''RateLimit-Remaining'', HNum 0),
                  (''RateLimit-Reset'', HNum 86400)],
       body = LimitExceeded
         ''Daily search limit exceeded (50 searches per day). Please try again tomorrow.''
         86400010\<rparr>"
proof -
  let ?ip = "''10.0.0.1''"
  let ?pre = "(0, ?ip, Status) # replicate 49 (5, ?ip, Status)"
  let ?s' = "Search dune_upstream 11 dune_req"
  have closed: "\<forall>n r. limiter state0 ?ip = Some (n, r) \<longrightarrow> r \<le> 0"
    by (simp add: state0_def)
  have b: "(0, ?ip, Status) # (replicate 49 (5, ?ip, Status) @ [(10, ?ip, ?s')])
             = ?pre @ (10, ?ip, ?s') # []"
    by simp
  have b_win: "\<forall>x\<in>set (replicate 49 (5, ?ip, Status) @ [(10, ?ip, ?s')]).
                 fst (snd x) = ?ip \<longrightarrow> fst x < 0 + windowMs"
    by (simp add: windowMs_def)
  have n: "requests_by ?ip ?pre = 50" by (simp add: requests_by_def)
  have s: "searches_by ?ip ?pre = 0" by (simp add: searches_by_def)
  define sti where "sti = serve_all env0 ?pre state0"
  have c: "count_request 10 ?ip (limiter sti) = (51, 86400000)"
    using count_in_window[OF closed b b_win, of env0] n by (simp add: windowMs_def sti_def)
  have r: "rateLimitReset env0 10 86400000 = 86400" by (simp add: env0_def)
  have "fst (serve env0 (10, ?ip, ?s') sti) =
     \<lparr>status = 429,
       headers = [(''RateLimit-Limit'', HNum 50), (''RateLimit-Remaining'', HNum 0),
                  (''RateLimit-Reset'', HNum 86400)],
       body = LimitExceeded
         ''Daily search limit exceeded (50 searches per day). Please try again tomorrow.''
         86400010\<rparr>"
    by (simp add: books_search_route_def searchLimiter_def Let_def c r max_requests_def
        limit_handler_def rate_headers_def)
  then have "fst (serve env0 (10, ?ip, ?s') (serve_all env0 ?pre state0)) =
     \<lparr>status = 429,
       headers = [(''RateLimit-Limit'', HNum 50), (''RateLimit-Remaining'', HNum 0),
                  (''RateLimit-Reset'', HNum 86400)],
       body = LimitExceeded
         ''Daily search limit exceeded (50 searches per day). Please try again tomorrow.''
         86400010\<rparr>"
    unfolding sti_def .
  moreover have "limiter state0 ?ip = None" by (simp add: state0_def)
  ultimately show ?thesis using n s by blast
qed

text \<open>
  Claim C9. Every search request that the limiter lets through and that is answered
  with status 200, from the cache or after an upstream fetch, carries the header
  \<^verbatim>\<open>RateLimit-Remaining\<close>, and its value is what is left of the identity's allowance: 50
  less the number of requests counted in the identity's window, this one included,
  which is the count the limiter keeps for the identity.
\<close>

theorem search_response_carries_remaining:
  assumes "books_search_route e fetch now later ip req st = (r, st')"
    and "status r = 200"
  shows "getHeader ''RateLimit-Remaining'' (headers r)
           = Some (HNum (50 - int (fst (count_request now ip (limiter st)))))
         \<and> fst (count_request now ip (limiter st)) \<le> 50
         \<and> limiter st' ip = Some (count_request now ip (limiter st))"
proof (cases "max_requests < fst (count_request now ip (limiter st))")
  case True
  then have "status r = 429"
    using assms(1)
    by (auto simp: books_search_route_def searchLimiter_def Let_def limit_handler_def)
  then show ?thesis using assms(2) by simp
next
  case False
  let ?hs = "rate_headers e now (count_request now ip (limiter st))"
  let ?st = "st\<lparr>limiter := (limiter st)(ip \<mapsto> count_request now ip (limiter st))\<rparr>"
  have r: "search_handler e fetch now later ?hs req ?st = (r, st')"
    using assms(1) False by (simp add: books_search_route_def searchLimiter_def Let_def)
  have "getHeader ''RateLimit-Remaining'' (headers r) = getHeader ''RateLimit-Remaining'' ?hs"
    using search_handler_headers[of e fetch now later ?hs req ?st "''RateLimit-Remaining''"]
      r assms(2)
    by simp
  moreover have "limiter st' = limiter ?st"
    using search_handler_limiter[of e fetch now later ?hs req ?st] r by simp
  ultimately show ?thesis using False
    by (simp add: rate_headers_def getHeader_def max_requests_def)
qed

text \<open>
  A first search, answered by the upstream, carries 49; the same search two
  milliseconds later, answered from the cache, carries 48.
\<close>

theorem search_response_carries_remaining_witness:
  "getHeader ''RateLimit-Remaining''
     (headers (fst (books_search_route env0 dune_upstream 0 1 ''10.0.0.1'' dune_req state0)))
     = Some (HNum 49) \<and>
   getHeader ''RateLimit-Remaining''
     (headers (fst (books_search_route env0 dune_upstream 2 3 ''10.0.0.1'' dune_req
        (snd (books_search_route env0 dune_upstream 0 1 ''10.0.0.1'' dune_req state0)))))
     = Some (HNum 48)"
proof -
  let ?ip = "''10.0.0.1''"
  let ?first = "books_search_route env0 dune_upstream 0 1 ?ip dune_req state0"
  let ?second = "books_search_route env0 dune_upstream 2 3 ?ip dune_req (snd ?first)"
  have s1: "status (fst ?first) = 200"
    by (simp add: books_search_route_def searchLimiter_def count_request_def Let_def state0_def
      max_requests_def search_handler_def dune_req_def js_trim_def is_space_def
      getCachedOrFetch_def dune_upstream_def bare_volume_def reshape_item_def)
  have s2: "status (fst ?second) = 200"
    by (simp add: books_search_route_def searchLimiter_def count_request_def Let_def state0_def
      max_requests_def search_handler_def dune_req_def js_trim_def is_space_def
      getCachedOrFetch_def dune_upstream_def bare_volume_def reshape_item_def cache_set_def
      windowMs_def CACHE_TTL_def)
  have c1: "count_request 0 ?ip (limiter state0) = (1, windowMs)"
    by (simp add: count_request_def state0_def)
  have l1: "limiter (snd ?first) ?ip = Some (1, windowMs)"
    using search_response_carries_remaining[OF surjective_pairing s1] c1 by simp
  have c2: "count_request 2 ?ip (limiter (snd ?first)) = (2, windowMs)"
    by (simp add: count_request_def l1 windowMs_def)
  show ?thesis
    using search_response_carries_remaining[OF surjective_pairing s1]
      search_response_carries_remaining[OF surjective_pairing s2]
    by (simp add: c1 c2)
qed

text \<open>
  A search that is let through and finds a live cache entry is answered with that
  entry and with the limiter's headers only: the handler returns before it sets
  \<^verbatim>\<open>X-Searches-Remaining\<close>, the upstream is not asked and the cache stays as it is.
\<close>

theorem cache_hit_has_limiter_headers_only:
  assumes q: "query req = Some q" "q \<noteq> []" "js_trim q \<noteq> []"
    and url: "url = search_url e q (case maxResults req of None \<Rightarrow> ''15'' | Some m \<Rightarrow> m)
                      (case startIndex req of None \<Rightarrow> ''0'' | Some i \<Rightarrow> i)"
    and hit: "cache st url = Some (data, ts)" "now - ts < CACHE_TTL"
    and allowed: "fst (count_request now ip (limiter st)) \<le> max_requests"
  shows "fst (books_search_route e fetch now later ip req st) =
           \<lparr>status = 200, headers = rate_headers e now (count_request now ip (limiter st)),
             body = data\<rparr> \<and>
         getHeader ''X-Searches-Remaining''
           (headers (fst (books_search_route e fetch now later ip req st))) = None \<and>
         cache (snd (books_search_route e fetch now later ip req st)) = cache st"
proof -
  let ?hs = "rate_headers e now (count_request now ip (limiter st))"
  let ?st = "st\<lparr>limiter := (limiter st)(ip \<mapsto> count_request now ip (limiter st))\<rparr>"
  have r: "books_search_route e fetch now later ip req st
             = search_handler e fetch now later ?hs req ?st"
    using allowed by (simp add: books_search_route_def searchLimiter_def Let_def)
  have g: "getCachedOrFetch now url (cache ?st) = (Some data, cache ?st)"
    using hit by (simp add: getCachedOrFetch_def)
  have h: "search_handler e fetch now later ?hs req ?st
             = (\<lparr>status = 200, headers = ?hs, body = data\<rparr>, ?st)"
    using q g by (simp add: search_handler_def Let_def url[symmetric])
  have res: "books_search_route e fetch now later ip req st
               = (\<lparr>status = 200, headers = ?hs, body = data\<rparr>, ?st)"
    using r h by simp
  have "getHeader ''X-Searches-Remaining'' ?hs = None"
    by (simp add: rate_headers_def getHeader_def)
  then show ?thesis by (simp add: res)
qed

text \<open>A cached answer for ``dune'', five milliseconds old.\<close>

theorem cache_hit_has_limiter_headers_only_witness:
  "getHeader ''X-Searches-Remaining''
     (headers (fst (books_search_route env0 dune_upstream 5 6 ''10.0.0.1'' dune_req
        (state0\<lparr>cache := [''https://www.googleapis.com/books/v1/volumes?q=dune&key=KEY&maxResults=15&startIndex=0''
            \<mapsto> (Success ''cached'', 0)]\<rparr>)))) = None \<and>
   body (fst (books_search_route env0 dune_upstream 5 6 ''10.0.0.1'' dune_req
        (state0\<lparr>cache := [''https://www.googleapis.com/books/v1/volumes?q=dune&key=KEY&maxResults=15&startIndex=0''
            \<mapsto> (Success ''cached'', 0)]\<rparr>))) = Success ''cached''"
proof -
  let ?url = "''https://www.googleapis.com/books/v1/volumes?q=dune&key=KEY&maxResults=15&startIndex=0''"
  let ?st = "state0\<lparr>cache := [?url \<mapsto> (Success ''cached'', 0)]\<rparr>"
  have q: "query dune_req = Some ''dune''" "''dune'' \<noteq> []" "js_trim ''dune'' \<noteq> []"
    by (simp_all add: dune_req_def js_trim_def is_space_def)
  have url: "?url = search_url env0 ''dune''
      (case maxResults dune_req of None \<Rightarrow> ''15'' | Some m \<Rightarrow> m)
      (case startIndex dune_req of None \<Rightarrow> ''0'' | Some i \<Rightarrow> i)"
    by (simp add: search_url_def env0_def dune_req_def GOOGLE_BOOKS_BASE_URL_def)
  have hit: "cache ?st ?url = Some (Success ''cached'', 0)" "5 - 0 < CACHE_TTL"
    by (simp_all add: CACHE_TTL_def)
  have allowed: "fst (count_request 5 ''10.0.0.1'' (limiter ?st)) \<le> max_requests"
    by (simp add: count_request_def state0_def max_requests_def)
  note t = cache_hit_has_limiter_headers_only[where fetch = dune_upstream and later = 6,
      OF q url hit allowed]
  have b: "body (fst (books_search_route env0 dune_upstream 5 6 ''10.0.0.1'' dune_req ?st))
             = Success ''cached''"
    using t[THEN conjunct1] by simp
  show ?thesis using t[THEN conjunct2, THEN conjunct1] b by blast
qed

section \<open>The reshaped search results\<close>

lemma reshape_items_nth:
  "reshape_items e its = Inr bs \<Longrightarrow>
     length bs = length its \<and> (\<forall>i < length its. reshape_item e (its ! i) = Inr (bs ! i))"
proof (induction its arbitrary: bs)
  case Nil
  then show ?case by simp
next
  case (Cons it its)
  then obtain b bs' where b: "reshape_item e it = Inr b" and bs': "reshape_items e its = Inr bs'"
    and eq: "bs = b # bs'"
    by (auto split: sum.splits)
  from Cons.IH[OF bs'] have ih: "length bs' = length its" "\<forall>i<length its. reshape_item e (its ! i) = Inr (bs' ! i)"
    by simp_all
  show ?case
  proof (intro conjI allI impI)
    show "length bs = length (it # its)" using eq ih by simp
  next
    fix i assume "i < length (it # its)"
    then show "reshape_item e ((it # its) ! i) = Inr (bs ! i)"
      using b eq ih by (cases i) simp_all
  qed
qed

lemma reshape_items_total:
  "\<forall>it\<in>set its. volumeInfo it \<noteq> None \<Longrightarrow> \<exists>bs. reshape_items e its = Inr bs"
  by (induction its) (auto simp: reshape_item_def split: option.splits)

lemma reshape_item_no_description:
  "volumeInfo it = Some v \<Longrightarrow> vi_description v = None \<Longrightarrow> reshape_item e it = Inr b \<Longrightarrow>
     bk_description b = ''undefined...''"
  by (auto simp: reshape_item_def short_description_def js_or_str_def)

lemma search_handler_stores:
  assumes q: "query req = Some q" "q \<noteq> []" "js_trim q \<noteq> []"
    and url: "url = search_url e q (case maxResults req of None \<Rightarrow> ''15'' | Some m \<Rightarrow> m)
                      (case startIndex req of None \<Rightarrow> ''0'' | Some i \<Rightarrow> i)"
    and miss: "fst (getCachedOrFetch now url (cache st)) = None"
    and f: "fetch url = FetchOk data"
    and its: "gb_items data = Some its" "reshape_items e its = Inr bs"
    and rd: "rd = \<lparr>rd_books = bs, rd_totalItems = js_or_num (gb_totalItems data) 0, rd_query = q\<rparr>"
  shows "search_handler e fetch now later hs req st =
           (\<lparr>status = 200,
             headers = setHeader ''X-Searches-Remaining''
               (hval_or (getHeader ''RateLimit-Remaining'' hs) (HStr ''50'')) hs,
             body = SearchResults rd\<rparr>,
            st\<lparr>cache := cache_set url (SearchResults rd) later
                 (snd (getCachedOrFetch now url (cache st)))\<rparr>)"
  using q miss f its
  by (simp add: search_handler_def Let_def url[symmetric] rd)

text \<open>
  Claim C10. When a search is answered by an upstream fetch, every upstream item
  whose \<^verbatim>\<open>volumeInfo\<close> has no description is returned to the caller, and stored in the
  cache under the request's URL, with the description \<^verbatim>\<open>undefined...\<close>, which is not
  the fallback text: \<^verbatim>\<open>undefined + '...'\<close> is a non-empty string, so \<^verbatim>\<open>||\<close> never
  reaches its right operand.
\<close>

theorem missing_description_is_undefined_dots:
  assumes q: "query req = Some q" "q \<noteq> []" "js_trim q \<noteq> []"
    and url: "url = search_url e q (case maxResults req of None \<Rightarrow> ''15'' | Some m \<Rightarrow> m)
                      (case startIndex req of None \<Rightarrow> ''0'' | Some i \<Rightarrow> i)"
    and miss: "fst (getCachedOrFetch now url (cache st)) = None"
    and f: "fetch url = FetchOk data"
    and its: "gb_items data = Some its" "\<forall>it\<in>set its. volumeInfo it \<noteq> None"
    and i: "i < length its" "volumeInfo (its ! i) = Some v" "vi_description v = None"
  shows "\<exists>rd. body (fst (search_handler e fetch now later hs req st)) = SearchResults rd \<and>
              status (fst (search_handler e fetch now later hs req st)) = 200 \<and>
              cache (snd (search_handler e fetch now later hs req st)) url
                = Some (SearchResults rd, later) \<and>
              length (rd_books rd) = length its \<and>
              bk_description (rd_books rd ! i) = ''undefined...'' \<and>
              bk_description (rd_books rd ! i) \<noteq> ''No description available''"
proof -
  obtain bs where bs: "reshape_items e its = Inr bs"
    using reshape_items_total[OF its(2)] by blast
  define rd where "rd = \<lparr>rd_books = bs, rd_totalItems = js_or_num (gb_totalItems data) 0, rd_query = q\<rparr>"
  have h: "search_handler e fetch now later hs req st =
           (\<lparr>status = 200,
             headers = setHeader ''X-Searches-Remaining''
               (hval_or (getHeader ''RateLimit-Remaining'' hs) (HStr ''50'')) hs,
             body = SearchResults rd\<rparr>,
            st\<lparr>cache := cache_set url (SearchResults rd) later
                 (snd (getCachedOrFetch now url (cache st)))\<rparr>)"
    using search_handler_stores[where fetch = fetch and url = url, OF q url miss f its(1) bs rd_def] .
  have len: "length bs = length its" and nth: "reshape_item e (its ! i) = Inr (bs ! i)"
    using reshape_items_nth[OF bs] i(1) by simp_all
  have d: "bk_description (bs ! i) = ''undefined...''"
    by (rule reshape_item_no_description[OF i(2) i(3) nth])
  show ?thesis
    by (rule exI[of _ rd]) (simp add: h cache_set_def rd_def len d)
qed

text \<open>The volume ``Dune'', which the upstream returns without a description.\<close>

theorem missing_description_is_undefined_dots_witness:
  "\<exists>rd. body (fst (search_handler env0 dune_upstream 0 1 [] dune_req state0)) = SearchResults rd \<and>
        cache (snd (search_handler env0 dune_upstream 0 1 [] dune_req state0))
          ''https://www.googleapis.com/books/v1/volumes?q=dune&key=KEY&maxResults=15&startIndex=0''
          = Some (SearchResults rd, 1) \<and>
        bk_description (rd_books rd ! 0) = ''undefined...''"
proof -
  let ?url = "''https://www.googleapis.com/books/v1/volumes?q=dune&key=KEY&maxResults=15&startIndex=0''"
  let ?its = "[\<lparr>item_id = Some ''B1'', volumeInfo = Some bare_volume\<rparr>]"
  let ?data = "\<lparr>gb_items = Some ?its, gb_totalItems = Some 1\<rparr>"
  have q: "query dune_req = Some ''dune''" "''dune'' \<noteq> []" "js_trim ''dune'' \<noteq> []"
    by (simp_all add: dune_req_def js_trim_def is_space_def)
  have url: "?url = search_url env0 ''dune''
      (case maxResults dune_req of None \<Rightarrow> ''15'' | Some m \<Rightarrow> m)
      (case startIndex dune_req of None \<Rightarrow> ''0'' | Some i \<Rightarrow> i)"
    by (simp add: search_url_def env0_def dune_req_def GOOGLE_BOOKS_BASE_URL_def)
  have miss: "fst (getCachedOrFetch 0 ?url (cache state0)) = None"
    by (simp add: getCachedOrFetch_def state0_def)
  have f: "dune_upstream ?url = FetchOk ?data"
    by (simp add: dune_upstream_def)
  have its: "gb_items ?data = Some ?its" "\<forall>it\<in>set ?its. volumeInfo it \<noteq> None"
    by simp_all
  have i: "0 < length ?its" "volumeInfo (?its ! 0) = Some bare_volume"
    "vi_description bare_volume = None"
    by (simp_all add: bare_volume_def)
  from missing_description_is_undefined_dots[where fetch = dune_upstream and url = ?url and later = 1 and hs = "[]",
      OF q url miss f its i]
  show ?thesis by blast
qed


section \<open>The status endpoint\<close>

text \<open>
  Claim C8, as amended. Every call to the status endpoint goes through the limiter
  that gates search and is counted as a request of the identity's window, whether it
  is let through or refused: the count \<open>n\<close> that the limiter reaches with the call is
  one more than before in an open window and 1 when none is open, the store keeps it
  and nothing else of the state changes, and the identity's next request in the
  window is number \<open>Suc n\<close>. A call whose count \<open>n\<close> is below 50 is answered 200, with
  the limiter's headers, the limit 50 and the remaining count \<open>50 - n\<close>, when the
  limiter's reset header is a number of seconds that is a time of a \<^verbatim>\<open>Date\<close>.
\<close>

theorem status_call_is_counted:
  assumes c: "count_request now ip (limiter st) = (n, reset)"
  shows "snd (rate_limit_status_route e now ip st) = st\<lparr>limiter := (limiter st)(ip \<mapsto> (n, reset))\<rparr> \<and>
         (\<forall>m r. limiter st ip = Some (m, r) \<and> now < r \<longrightarrow> n = Suc m \<and> reset = r) \<and>
         (limiter st ip = None \<or> (\<exists>m r. limiter st ip = Some (m, r) \<and> r \<le> now) \<longrightarrow>
            n = 1 \<and> reset = now + windowMs) \<and>
         (\<forall>t. t < reset \<longrightarrow>
            fst (count_request t ip (limiter (snd (rate_limit_status_route e now ip st)))) = Suc n) \<and>
         (n < 50 \<and> valid_time (rateLimitReset e now reset * 1000) \<longrightarrow>
            status (fst (rate_limit_status_route e now ip st)) = 200 \<and>
            headers (fst (rate_limit_status_route e now ip st)) = rate_headers e now (n, reset) \<and>
            (\<exists>resetTime. body (fst (rate_limit_status_route e now ip st))
                            = RateStatus 50 (50 - int n) resetTime))"
proof -
  have store: "snd (searchLimiter e now ip (limiter st)) = (limiter st)(ip \<mapsto> (n, reset))"
    using c by (simp add: searchLimiter_store)
  have route: "snd (rate_limit_status_route e now ip st)
                 = st\<lparr>limiter := (limiter st)(ip \<mapsto> (n, reset))\<rparr>"
    using store
    by (cases "searchLimiter e now ip (limiter st)")
       (auto simp: rate_limit_status_route_def split: sum.splits)
  have win: "\<forall>m r. limiter st ip = Some (m, r) \<and> now < r \<longrightarrow> n = Suc m \<and> reset = r"
    using c by (auto simp: count_request_def)
  have fresh: "limiter st ip = None \<or> (\<exists>m r. limiter st ip = Some (m, r) \<and> r \<le> now) \<longrightarrow>
            n = 1 \<and> reset = now + windowMs"
    using c by (auto simp: count_request_def)
  have nxt: "\<forall>t. t < reset \<longrightarrow>
      fst (count_request t ip (limiter (snd (rate_limit_status_route e now ip st)))) = Suc n"
    by (simp add: route count_request_def)
  have answer: "status (fst (rate_limit_status_route e now ip st)) = 200 \<and>
            headers (fst (rate_limit_status_route e now ip st)) = rate_headers e now (n, reset) \<and>
            (\<exists>resetTime. body (fst (rate_limit_status_route e now ip st))
                            = RateStatus 50 (50 - int n) resetTime)"
    if n: "n < 50" and v: "valid_time (rateLimitReset e now reset * 1000)"
  proof -
    have "fst (searchLimiter e now ip (limiter st)) = Inr (rate_headers e now (n, reset))"
      using c n by (simp add: searchLimiter_decision max_requests_def)
    then have sl: "searchLimiter e now ip (limiter st)
        = (Inr (rate_headers e now (n, reset)), (limiter st)(ip \<mapsto> (n, reset)))"
      using store by (metis prod.collapse)
    have rem: "int n \<noteq> 50" "int (max_requests - n) = 50 - int n"
      using n by (simp_all add: max_requests_def)
    have h: "status_handler (rate_headers e now (n, reset)) =
        \<lparr>status = 200, headers = rate_headers e now (n, reset),
               body = RateStatus 50 (50 - int n)
                 (if rateLimitReset e now reset = 0 then None
                  else Some (rateLimitReset e now reset * 1000))\<rparr>"
      using rem v
      by (simp add: status_handler_def rate_headers_def getHeader_def parseInt_def js_or_num_def
          truthy_def Let_def max_requests_def)
    have "fst (rate_limit_status_route e now ip st) = status_handler (rate_headers e now (n, reset))"
      by (simp add: rate_limit_status_route_def sl)
    then show ?thesis using h by simp
  qed
  show ?thesis using route win fresh nxt answer by blast
qed

text \<open>
  The first status call of an identity is request number 1 and reports 49 remaining;
  its fifty-first call of the window is refused and is counted all the same.
\<close>

theorem status_call_is_counted_witness:
  "snd (rate_limit_status_route env0 0 ''10.0.0.1'' state0)
     = state0\<lparr>limiter := (limiter state0)(''10.0.0.1'' \<mapsto> (1, 86400000))\<rparr> \<and>
   status (fst (rate_limit_status_route env0 0 ''10.0.0.1'' state0)) = 200 \<and>
   (\<exists>resetTime. body (fst (rate_limit_status_route env0 0 ''10.0.0.1'' state0))
                   = RateStatus 50 49 resetTime) \<and>
   snd (rate_limit_status_route env0 7 ''10.0.0.1''
          (state0\<lparr>limiter := [''10.0.0.1'' \<mapsto> (50, 86400000)]\<rparr>))
     = state0\<lparr>limiter := [''10.0.0.1'' \<mapsto> (51, 86400000)]\<rparr>"
proof -
  let ?st = "state0\<lparr>limiter := [''10.0.0.1'' \<mapsto> (50, 86400000)]\<rparr>"
  have c: "count_request 0 ''10.0.0.1'' (limiter state0) = (1, 86400000)"
    by (simp add: count_request_def state0_def windowMs_def)
  have c': "count_request 7 ''10.0.0.1'' (limiter ?st) = (51, 86400000)"
    by (simp add: count_request_def)
  have v: "valid_time (rateLimitReset env0 0 86400000 * 1000)"
    by (simp add: env0_def valid_time_def)
  note t = status_call_is_counted[OF c, of env0]
  note t' = status_call_is_counted[OF c', of env0]
  have 1: "snd (rate_limit_status_route env0 0 ''10.0.0.1'' state0)
     = state0\<lparr>limiter := (limiter state0)(''10.0.0.1'' \<mapsto> (1, 86400000))\<rparr>"
    using t by blast
  have 2: "status (fst (rate_limit_status_route env0 0 ''10.0.0.1'' state0)) = 200 \<and>
   (\<exists>resetTime. body (fst (rate_limit_status_route env0 0 ''10.0.0.1'' state0))
                   = RateStatus 50 49 resetTime)"
    using t v by simp
  have 3: "snd (rate_limit_status_route env0 7 ''10.0.0.1'' ?st)
     = state0\<lparr>limiter := [''10.0.0.1'' \<mapsto> (51, 86400000)]\<rparr>"
    using t'[THEN conjunct1] by simp
  show ?thesis using 1 2 3 by blast
qed

text \<open>
  Claim C8 as stated fails. A status call on the initial state leaves the identity's
  count at 1, and the search that follows it is told 48 remaining where a search
  without it is told 49: the call has taken a slot. What the endpoint reports is not
  always the identity's state either. The limiter's reset header holds the seconds
  left in the window, which the handler reads as seconds since 1970: for a window
  that ends at 1700086400000 it reports the reset time 86400000. And at the fiftieth
  request of a window the header \<^verbatim>\<open>RateLimit-Remaining\<close> is 0, which
  \<^verbatim>\<open>parseInt(remaining) || 50\<close> reports as 50.
\<close>

theorem status_call_consumes_slot:
  "limiter state0 ''10.0.0.1'' = None \<and>
   limiter (snd (rate_limit_status_route env0 0 ''10.0.0.1'' state0)) ''10.0.0.1''
     = Some (1, 86400000) \<and>
   getHeader ''RateLimit-Remaining''
     (headers (fst (books_search_route env0 dune_upstream 1 2 ''10.0.0.1'' dune_req state0)))
     = Some (HNum 49) \<and>
   getHeader ''RateLimit-Remaining''
     (headers (fst (books_search_route env0 dune_upstream 1 2 ''10.0.0.1'' dune_req
        (snd (rate_limit_status_route env0 0 ''10.0.0.1'' state0)))))
     = Some (HNum 48) \<and>
   limiter (snd (rate_limit_status_route env0 1700000000000 ''10.0.0.1'' state0)) ''10.0.0.1''
     = Some (1, 1700086400000) \<and>
   body (fst (rate_limit_status_route env0 1700000000000 ''10.0.0.1'' state0))
     = RateStatus 50 49 (Some 86400000) \<and>
   getHeader ''RateLimit-Remaining''
     (headers (fst (rate_limit_status_route env0 10 ''10.0.0.1''
        (state0\<lparr>limiter := [''10.0.0.1'' \<mapsto> (49, 86400000)]\<rparr>))))
     = Some (HNum 0) \<and>
   body (fst (rate_limit_status_route env0 10 ''10.0.0.1''
           (state0\<lparr>limiter := [''10.0.0.1'' \<mapsto> (49, 86400000)]\<rparr>)))
     = RateStatus 50 50 (Some 86400000)"
  by (simp add: books_search_route_def rate_limit_status_route_def searchLimiter_def
      count_request_def Let_def state0_def
      max_requests_def search_handler_def dune_req_def js_trim_def is_space_def
      getCachedOrFetch_def dune_upstream_def bare_volume_def reshape_item_def
      windowMs_def rate_headers_def getHeader_def setHeader_def status_handler_def
      parseInt_def js_or_num_def truthy_def env0_def valid_time_def)

text \<open>
  At the fiftieth request of a window the header \<^verbatim>\<open>RateLimit-Remaining\<close> is 0, which
  \<^verbatim>\<open>parseInt(remaining) || 50\<close> turns into 50: the status endpoint then reports 50
  remaining requests.
\<close>

theorem status_reports_fifty_at_zero:
  assumes "limiter st ip = Some (49, r)" and "now < r"
    and "valid_time (rateLimitReset e now r * 1000)"
  shows "body (fst (rate_limit_status_route e now ip st))
           = RateStatus 50 50 (if rateLimitReset e now r = 0 then None
                               else Some (rateLimitReset e now r * 1000)) \<and>
         getHeader ''RateLimit-Remaining'' (headers (fst (rate_limit_status_route e now ip st)))
           = Some (HNum 0)"
  using assms
  by (simp add: rate_limit_status_route_def searchLimiter_def count_request_def Let_def
      max_requests_def status_handler_def rate_headers_def getHeader_def parseInt_def
      js_or_num_def truthy_def)

text \<open>The fiftieth request of a window, ten milliseconds into it.\<close>

theorem status_reports_fifty_at_zero_witness:
  "body (fst (rate_limit_status_route env0 10 ''10.0.0.1''
           (state0\<lparr>limiter := [''10.0.0.1'' \<mapsto> (49, 86400000)]\<rparr>)))
     = RateStatus 50 50 (Some 86400000)"
proof -
  have r: "rateLimitReset env0 10 86400000 = 86400" by (simp add: env0_def)
  show ?thesis
    using status_reports_fifty_at_zero[where st = "state0\<lparr>limiter := [''10.0.0.1'' \<mapsto> (49, 86400000)]\<rparr>"
      and ip = "''10.0.0.1''" and r = 86400000 and now = 10 and e = env0]
    by (simp add: r valid_time_def)
qed


text \<open>
  The reset time that the status endpoint reports is the value of the limiter's
  \<^verbatim>\<open>RateLimit-Reset\<close> header times 1000, read as milliseconds since 1970, and
  \<^verbatim>\<open>null\<close> when the header is 0. With the header holding the seconds left in the
  window, the time reported lies in January 1970, not at the end of the window.
\<close>

theorem status_reset_time_is_header_times_1000:
  assumes c: "count_request now ip (limiter st) = (n, reset)" and n: "n \<le> 50"
    and v: "valid_time (rateLimitReset e now reset * 1000)"
  shows "\<exists>limit remaining.
           body (fst (rate_limit_status_route e now ip st)) =
             RateStatus limit remaining
               (if rateLimitReset e now reset = 0 then None
                else Some (rateLimitReset e now reset * 1000))"
proof -
  have "fst (searchLimiter e now ip (limiter st)) = Inr (rate_headers e now (n, reset))"
    using c n by (simp add: searchLimiter_decision max_requests_def)
  moreover have "snd (searchLimiter e now ip (limiter st)) = (limiter st)(ip \<mapsto> (n, reset))"
    using c by (simp add: searchLimiter_store)
  ultimately have sl: "searchLimiter e now ip (limiter st)
      = (Inr (rate_headers e now (n, reset)), (limiter st)(ip \<mapsto> (n, reset)))"
    by (metis prod.collapse)
  have "fst (rate_limit_status_route e now ip st) = status_handler (rate_headers e now (n, reset))"
    by (simp add: rate_limit_status_route_def sl)
  then show ?thesis
    using v
    by (simp add: status_handler_def rate_headers_def getHeader_def parseInt_def truthy_def Let_def)
qed

text \<open>A first call in November 2023: the window ends a day later, the report says 2 January 1970.\<close>

theorem status_reset_time_is_header_times_1000_witness:
  "count_request 1700000000000 ''10.0.0.1'' (limiter state0) = (1, 1700086400000) \<and>
   (\<exists>limit remaining.
      body (fst (rate_limit_status_route env0 1700000000000 ''10.0.0.1'' state0)) =
        RateStatus limit remaining (Some 86400000))"
proof -
  have c: "count_request 1700000000000 ''10.0.0.1'' (limiter state0) = (1, 1700086400000)"
    by (simp add: count_request_def state0_def windowMs_def)
  have n: "(1::nat) \<le> 50" by simp
  have r: "rateLimitReset env0 1700000000000 1700086400000 = 86400" by (simp add: env0_def)
  have v: "valid_time (rateLimitReset env0 1700000000000 1700086400000 * 1000)"
    by (simp add: r valid_time_def)
  show ?thesis
    using status_reset_time_is_header_times_1000[OF c n v] c by (simp add: r)
qed

section \<open>Find-or-create\<close>

lemma filter_distinct_key:
  "distinct (map f xs) \<Longrightarrow> length (filter (\<lambda>x. f x = v) xs) \<le> 1"
proof (induction xs)
  case Nil
  then show ?case by simp
next
  case (Cons x xs)
  show ?case
  proof (cases "f x = v")
    case True
    have "f x \<notin> f ` set xs" using Cons.prems by simp
    then have "\<forall>y\<in>set xs. f y \<noteq> v" using True by blast
    then have "filter (\<lambda>y. f y = v) xs = []"
      by (simp add: filter_empty_conv)
    then show ?thesis using True by simp
  next
    case False
    then show ?thesis using Cons by simp
  qed
qed

lemma author_rewrite_same:
  "map (\<lambda>r. if author_name r = nm then r\<lparr>author_name := nm\<rparr> else r) xs = xs"
  by (induction xs) auto

lemma series_rewrite_same:
  "map (\<lambda>r. if series_name r = nm then r\<lparr>series_name := nm\<rparr> else r) xs = xs"
  by (induction xs) auto

lemma put_author_new:
  "filter (\<lambda>a. author_name a = nm) (authors d) = [] \<Longrightarrow>
   put_author nm d =
     (authors_id_seq d,
      d\<lparr>authors_id_seq := Suc (authors_id_seq d),
        authors := authors d @ [\<lparr>author_id = authors_id_seq d, author_name = nm\<rparr>]\<rparr>)"
  by (simp add: put_author_def Let_def)

lemma put_author_old:
  "filter (\<lambda>a. author_name a = nm) (authors d) = a # as \<Longrightarrow>
   put_author nm d = (author_id a, d\<lparr>authors_id_seq := Suc (authors_id_seq d)\<rparr>)"
  by (simp add: put_author_def Let_def author_rewrite_same)

lemma put_series_new:
  "filter (\<lambda>a. series_name a = nm) (series d) = [] \<Longrightarrow>
   put_series nm d =
     (series_id_seq d,
      d\<lparr>series_id_seq := Suc (series_id_seq d),
        series := series d @ [\<lparr>series_id = series_id_seq d, series_name = nm\<rparr>]\<rparr>)"
  by (simp add: put_series_def Let_def)

lemma put_series_old:
  "filter (\<lambda>a. series_name a = nm) (series d) = a # as \<Longrightarrow>
   put_series nm d = (series_id a, d\<lparr>series_id_seq := Suc (series_id_seq d)\<rparr>)"
  by (simp add: put_series_def Let_def series_rewrite_same)

lemma put_author_twice:
  assumes "distinct (map author_name (authors d))"
  shows "fst (put_author nm (snd (put_author nm d))) = fst (put_author nm d) \<and>
         authors (snd (put_author nm (snd (put_author nm d)))) = authors (snd (put_author nm d)) \<and>
         filter (\<lambda>a. author_name a = nm) (authors (snd (put_author nm d)))
           = [\<lparr>author_id = fst (put_author nm d), author_name = nm\<rparr>]"
proof (cases "filter (\<lambda>a. author_name a = nm) (authors d)")
  case Nil
  show ?thesis
    by (simp add: put_author_new[OF Nil] Nil put_author_old[where as = "[]"])
next
  case (Cons a as)
  have "length (filter (\<lambda>a. author_name a = nm) (authors d)) \<le> 1"
    using filter_distinct_key[OF assms] .
  then have as: "as = []" using Cons by simp
  have "a \<in> set (filter (\<lambda>a. author_name a = nm) (authors d))" using Cons by simp
  then have nm: "author_name a = nm" by simp
  have a: "a = \<lparr>author_id = author_id a, author_name = nm\<rparr>" using nm by (cases a) simp
  show ?thesis
    using a by (simp add: put_author_old[OF Cons] Cons as put_author_old[where as = "[]"])
qed

lemma put_series_twice:
  assumes "distinct (map series_name (series d))"
  shows "fst (put_series nm (snd (put_series nm d))) = fst (put_series nm d) \<and>
         series (snd (put_series nm (snd (put_series nm d)))) = series (snd (put_series nm d)) \<and>
         filter (\<lambda>a. series_name a = nm) (series (snd (put_series nm d)))
           = [\<lparr>series_id = fst (put_series nm d), series_name = nm\<rparr>]"
proof (cases "filter (\<lambda>a. series_name a = nm) (series d)")
  case Nil
  show ?thesis
    by (simp add: put_series_new[OF Nil] Nil put_series_old[where as = "[]"])
next
  case (Cons a as)
  have "length (filter (\<lambda>a. series_name a = nm) (series d)) \<le> 1"
    using filter_distinct_key[OF assms] .
  then have as: "as = []" using Cons by simp
  have "a \<in> set (filter (\<lambda>a. series_name a = nm) (series d))" using Cons by simp
  then have nm: "series_name a = nm" by simp
  have a: "a = \<lparr>series_id = series_id a, series_name = nm\<rparr>" using nm by (cases a) simp
  show ?thesis
    using a by (simp add: put_series_old[OF Cons] Cons as put_series_old[where as = "[]"])
qed

lemma varchar_fits: "fits n s \<Longrightarrow> varchar n s = Some s"
  by (simp add: varchar_def fits_def)

lemma varchar_result: "varchar n s = Some v \<Longrightarrow> fits n v"
  by (auto simp: varchar_def fits_def text_in_def split: if_splits dest: in_set_takeD)

lemma upsert_author_fits:
  "fits 255 nm \<Longrightarrow> upsert_author nm d = (Inr (fst (put_author nm d)), snd (put_author nm d))"
  by (simp add: upsert_author_def varchar_fits)

lemma upsert_series_fits:
  "fits 255 nm \<Longrightarrow> upsert_series nm d = (Inr (fst (put_series nm d)), snd (put_series nm d))"
  by (simp add: upsert_series_def varchar_fits)

text \<open>
  Claim C3, as amended. Take a name that is a value of the column \<^verbatim>\<open>name
  VARCHAR(255)\<close>, a text of at most 255 characters without a NUL, and a database that
  satisfies the constraints of \<^verbatim>\<open>authors\<close> and \<^verbatim>\<open>series\<close>. Running the find-or-create
  statement twice with the name returns an id the first time and the same id the
  second time, and afterwards exactly one row of the table has that name: the row
  with the id returned. This holds for authors and for series.
\<close>

theorem find_or_create_idempotent:
  assumes "authors_ok d" and "series_ok d" and "fits 255 nm"
  shows "(\<exists>i. fst (upsert_author nm d) = Inr i \<and>
              fst (upsert_author nm (snd (upsert_author nm d))) = Inr i \<and>
              filter (\<lambda>a. author_name a = nm)
                (authors (snd (upsert_author nm (snd (upsert_author nm d)))))
                = [\<lparr>author_id = i, author_name = nm\<rparr>]) \<and>
         (\<exists>j. fst (upsert_series nm d) = Inr j \<and>
              fst (upsert_series nm (snd (upsert_series nm d))) = Inr j \<and>
              filter (\<lambda>s. series_name s = nm)
                (series (snd (upsert_series nm (snd (upsert_series nm d)))))
                = [\<lparr>series_id = j, series_name = nm\<rparr>])"
proof -
  have a: "distinct (map author_name (authors d))" using assms(1) by (simp add: authors_ok_def)
  have s: "distinct (map series_name (series d))" using assms(2) by (simp add: series_ok_def)
  show ?thesis
    using put_author_twice[OF a, of nm] put_series_twice[OF s, of nm]
    by (simp add: upsert_author_fits[OF assms(3)] upsert_series_fits[OF assms(3)])
qed

text \<open>On the empty database both calls for ``Jane Doe'' return 1, and one row is stored.\<close>

theorem find_or_create_idempotent_witness:
  "fst (upsert_author ''Jane Doe'' empty_db) = Inr 1 \<and>
   fst (upsert_author ''Jane Doe'' (snd (upsert_author ''Jane Doe'' empty_db))) = Inr 1 \<and>
   authors (snd (upsert_author ''Jane Doe'' (snd (upsert_author ''Jane Doe'' empty_db))))
     = [\<lparr>author_id = 1, author_name = ''Jane Doe''\<rparr>] \<and>
   fst (upsert_series ''Dune'' (snd (upsert_series ''Dune'' empty_db))) = Inr 1 \<and>
   series (snd (upsert_series ''Dune'' (snd (upsert_series ''Dune'' empty_db))))
     = [\<lparr>series_id = 1, series_name = ''Dune''\<rparr>]"
proof -
  have a: "authors_ok empty_db" by (simp add: authors_ok_def empty_db_def)
  have s: "series_ok empty_db" by (simp add: series_ok_def empty_db_def)
  have f: "fits 255 ''Jane Doe''" "fits 255 ''Dune''" by (simp_all add: fits_def text_in_def)
  have 1: "fst (upsert_author ''Jane Doe'' empty_db) = Inr 1"
    by (simp add: upsert_author_fits[OF f(1)] put_author_def empty_db_def)
  have 2: "fst (upsert_series ''Dune'' empty_db) = Inr 1"
    by (simp add: upsert_series_fits[OF f(2)] put_series_def empty_db_def)
  have 3: "authors (snd (upsert_author ''Jane Doe'' (snd (upsert_author ''Jane Doe'' empty_db))))
     = [\<lparr>author_id = 1, author_name = ''Jane Doe''\<rparr>]"
    by (simp add: upsert_author_fits[OF f(1)] put_author_def empty_db_def)
  have 4: "series (snd (upsert_series ''Dune'' (snd (upsert_series ''Dune'' empty_db))))
     = [\<lparr>series_id = 1, series_name = ''Dune''\<rparr>]"
    by (simp add: upsert_series_fits[OF f(2)] put_series_def empty_db_def)
  show ?thesis
    using find_or_create_idempotent[OF a s f(1)] find_or_create_idempotent[OF a s f(2)]
    by (simp add: 1 2 3 4)
qed

text \<open>
  Claim C3 as stated fails. A name of 256 letters is not a value of \<^verbatim>\<open>VARCHAR(255)\<close>,
  and neither is a name with a NUL: the statement raises, on the first call and on
  the second, no id is returned and no row is stored.
\<close>

theorem name_outside_the_column_type_is_refused:
  "upsert_author (replicate 256 CHR ''a'') empty_db = (Inl DataException, empty_db) \<and>
   upsert_author (replicate 256 CHR ''a'') (snd (upsert_author (replicate 256 CHR ''a'') empty_db))
     = (Inl DataException, empty_db) \<and>
   authors empty_db = [] \<and>
   upsert_series (replicate 256 CHR ''a'') empty_db = (Inl DataException, empty_db) \<and>
   upsert_series (replicate 256 CHR ''a'') (snd (upsert_series (replicate 256 CHR ''a'') empty_db))
     = (Inl DataException, empty_db) \<and>
   series empty_db = [] \<and>
   upsert_author [CHR ''a'', CHR 0x00] empty_db = (Inl DataException, empty_db) \<and>
   upsert_series [CHR ''a'', CHR 0x00] empty_db = (Inl DataException, empty_db)"
proof -
  have "varchar 255 (replicate 256 CHR ''a'') = None"
    by (simp add: varchar_def text_in_def list_all_iff)
  moreover have "varchar 255 [CHR ''a'', CHR 0x00] = None"
    by (simp add: varchar_def text_in_def)
  ultimately show ?thesis
    by (simp add: upsert_author_def upsert_series_def) (simp add: empty_db_def)
qed

section \<open>Registration and login\<close>

text \<open>
  Claim C5, as amended. A registration request that passes the route's validators
  (an address that \<^verbatim>\<open>isEmail\<close> accepts, a password of at least six characters) and
  whose normalised address is already in \<^verbatim>\<open>users\<close> is answered with status 400 and
  the message \<^verbatim>\<open>Email already registered\<close>, and the database is returned as it was.
\<close>

theorem duplicate_email_rejected:
  assumes "register_errors a req = []"
    and "select_user_by_email (normalizeEmail a (field_string (r_email req))) d \<noteq> []"
  shows "register a now req d = (json 400 (ErrorBody ''Email already registered''), d)"
  using assms by (simp add: register_def Let_def)

text \<open>The address of the registered user, with a password the validators accept.\<close>

theorem duplicate_email_rejected_witness:
  "register auth0 5 \<lparr>r_email = Some ''a@b.com'', r_password = Some ''secret1'', r_name = None\<rparr>
     one_user_db
   = (\<lparr>status = 400, headers = [], body = ErrorBody ''Email already registered''\<rparr>, one_user_db)"
proof -
  let ?req = "\<lparr>r_email = Some ''a@b.com'', r_password = Some ''secret1'', r_name = None\<rparr>"
  have v: "register_errors auth0 ?req = []"
    by (simp add: register_errors_def auth0_def field_string_def)
  have e: "select_user_by_email (normalizeEmail auth0 (field_string (r_email ?req))) one_user_db \<noteq> []"
    by (simp add: select_user_by_email_def auth0_def field_string_def one_user_db_def empty_db_def)
  show ?thesis using duplicate_email_rejected[OF v e, of 5] by (simp add: json_def)
qed

text \<open>
  Claim C5 as stated fails: with the address of the registered user and a password
  of three characters the answer is 400 with the validation errors, not the message
  \<^verbatim>\<open>Email already registered\<close>; the validators run before the address is looked up.
\<close>

theorem short_password_hides_duplicate_email:
  "select_user_by_email ''a@b.com'' one_user_db \<noteq> [] \<and>
   register auth0 5 \<lparr>r_email = Some ''a@b.com'', r_password = Some ''abc'', r_name = None\<rparr>
     one_user_db
   = (\<lparr>status = 400, headers = [], body = ValidationErrors [''password'']\<rparr>, one_user_db)"
  by (simp add: register_def register_errors_def auth0_def field_string_def json_def
      select_user_by_email_def one_user_db_def empty_db_def)

text \<open>
  Claim C6, as amended. A login request that passes the route's validators (an
  address that \<^verbatim>\<open>isEmail\<close> accepts, a password field that is present) and whose
  password is a string is answered with status 401 and the message \<^verbatim>\<open>Invalid email or
  password\<close> both when no user has the normalised address and when the user found has
  a hash that the password does not match: the two answers are the same response.
\<close>

theorem login_failures_alike:
  assumes "login_errors a req = []" and "l_password req = Some (JString p)"
  shows "(select_user_by_email (normalizeEmail a (field_string (l_email req))) d = [] \<longrightarrow>
            login a req d = \<lparr>status = 401, headers = [], body = ErrorBody ''Invalid email or password''\<rparr>) \<and>
         (\<forall>u us. select_user_by_email (normalizeEmail a (field_string (l_email req))) d = u # us \<and>
                 \<not> bcrypt_compare a p (password_hash u) \<longrightarrow>
            login a req d = \<lparr>status = 401, headers = [], body = ErrorBody ''Invalid email or password''\<rparr>)"
  using assms by (auto simp: login_def json_def comparePassword_def)

text \<open>An unknown address, and the registered address with a wrong password.\<close>

theorem login_failures_alike_witness:
  "login auth0 \<lparr>l_email = Some ''x@y.org'', l_password = Some (JString ''secret1'')\<rparr> one_user_db
     = \<lparr>status = 401, headers = [], body = ErrorBody ''Invalid email or password''\<rparr> \<and>
   login auth0 \<lparr>l_email = Some ''a@b.com'', l_password = Some (JString ''wrong'')\<rparr> one_user_db
     = \<lparr>status = 401, headers = [], body = ErrorBody ''Invalid email or password''\<rparr>"
proof -
  let ?r1 = "\<lparr>l_email = Some ''x@y.org'', l_password = Some (JString ''secret1'')\<rparr>"
  let ?r2 = "\<lparr>l_email = Some ''a@b.com'', l_password = Some (JString ''wrong'')\<rparr>"
  let ?u = "\<lparr>user_id = 1, user_email = ''a@b.com'', password_hash = ''hash:secret1'',
                           user_name = None, created_at = 0\<rparr>"
  have v1: "login_errors auth0 ?r1 = []" and v2: "login_errors auth0 ?r2 = []"
    by (simp_all add: login_errors_def auth0_def field_string_def)
  have p1: "l_password ?r1 = Some (JString ''secret1'')"
    and p2: "l_password ?r2 = Some (JString ''wrong'')"
    by simp_all
  have e1: "select_user_by_email (normalizeEmail auth0 (field_string (l_email ?r1))) one_user_db = []"
    by (simp add: select_user_by_email_def auth0_def field_string_def one_user_db_def empty_db_def)
  have e2: "select_user_by_email (normalizeEmail auth0 (field_string (l_email ?r2))) one_user_db = ?u # []"
    by (simp add: select_user_by_email_def auth0_def field_string_def one_user_db_def empty_db_def)
  have w2: "\<not> bcrypt_compare auth0 ''wrong'' (password_hash ?u)"
    by (simp add: auth0_def)
  show ?thesis
    using login_failures_alike[OF v1 p1, of one_user_db]
      login_failures_alike[OF v2 p2, of one_user_db] e1 e2 w2
    by simp
qed

text \<open>
  Claim C6 as stated fails. A login for an unknown address that sends no password is
  answered with status 400 and the validation errors, not with 401. And a password
  that is not a string passes the validator, but \<^verbatim>\<open>bcrypt.compare\<close> rejects it: for the
  registered address the answer is 500, for an unknown address it is 401.
\<close>

theorem login_failure_is_not_always_401:
  "select_user_by_email (normalizeEmail auth0 ''x@y.org'') one_user_db = [] \<and>
   login auth0 \<lparr>l_email = Some ''x@y.org'', l_password = None\<rparr> one_user_db
     = \<lparr>status = 400, headers = [], body = ValidationErrors [''password'']\<rparr> \<and>
   login auth0 \<lparr>l_email = Some ''a@b.com'', l_password = Some (JNumber 123)\<rparr> one_user_db
     = \<lparr>status = 500, headers = [], body = ErrorBody ''Failed to login''\<rparr> \<and>
   login auth0 \<lparr>l_email = Some ''x@y.org'', l_password = Some (JNumber 123)\<rparr> one_user_db
     = \<lparr>status = 401, headers = [], body = ErrorBody ''Invalid email or password''\<rparr>"
  by (simp add: login_def login_errors_def auth0_def field_string_def json_def
      select_user_by_email_def one_user_db_def empty_db_def comparePassword_def)

text \<open>
  With a string for a password, the answer to a request does not tell an unknown
  address from a wrong password, whatever the validators say.
\<close>

theorem login_answer_hides_cause:
  assumes "select_user_by_email (normalizeEmail a (field_string (l_email req))) d1 = []"
    and "select_user_by_email (normalizeEmail a (field_string (l_email req))) d2 = u # us"
    and "l_password req = Some (JString p)"
    and "\<not> bcrypt_compare a p (password_hash u)"
  shows "login a req d1 = login a req d2"
  using assms by (simp add: login_def comparePassword_def)

text \<open>The same login against a database without the user and one with it.\<close>

theorem login_answer_hides_cause_witness:
  "login auth0 \<lparr>l_email = Some ''a@b.com'', l_password = Some (JString ''wrong'')\<rparr> empty_db
     = login auth0 \<lparr>l_email = Some ''a@b.com'', l_password = Some (JString ''wrong'')\<rparr> one_user_db"
proof -
  let ?r = "\<lparr>l_email = Some ''a@b.com'', l_password = Some (JString ''wrong'')\<rparr>"
  let ?u = "\<lparr>user_id = 1, user_email = ''a@b.com'', password_hash = ''hash:secret1'',
                           user_name = None, created_at = 0\<rparr>"
  have e1: "select_user_by_email (normalizeEmail auth0 (field_string (l_email ?r))) empty_db = []"
    by (simp add: select_user_by_email_def auth0_def field_string_def empty_db_def)
  have e2: "select_user_by_email (normalizeEmail auth0 (field_string (l_email ?r))) one_user_db = ?u # []"
    by (simp add: select_user_by_email_def auth0_def field_string_def one_user_db_def empty_db_def)
  have p: "l_password ?r = Some (JString ''wrong'')" by simp
  have w: "\<not> bcrypt_compare auth0 ''wrong'' (password_hash ?u)"
    by (simp add: auth0_def)
  show ?thesis by (rule login_answer_hides_cause[OF e1 e2 p w])
qed

text \<open>
  A validated login whose password is not a string is answered 401 when the address
  is unknown and 500 when a user has it: the status tells whether the address is
  registered.
\<close>

theorem password_not_a_string_tells_known_address:
  assumes "login_errors a req = []" and "\<forall>s. l_password req \<noteq> Some (JString s)"
  shows "login a req d =
           (if select_user_by_email (normalizeEmail a (field_string (l_email req))) d = []
            then \<lparr>status = 401, headers = [], body = ErrorBody ''Invalid email or password''\<rparr>
            else \<lparr>status = 500, headers = [], body = ErrorBody ''Failed to login''\<rparr>)"
proof -
  have "comparePassword a (l_password req) h = None" for h
    using assms(2) by (auto simp: comparePassword_def split: option.splits jvalue.splits)
  then show ?thesis
    using assms(1) by (simp add: login_def json_def split: list.splits)
qed

text \<open>The password \<^verbatim>\<open>null\<close>, for the registered address and for another.\<close>

theorem password_not_a_string_tells_known_address_witness:
  "login auth0 \<lparr>l_email = Some ''a@b.com'', l_password = Some JNull\<rparr> one_user_db
     = \<lparr>status = 500, headers = [], body = ErrorBody ''Failed to login''\<rparr> \<and>
   login auth0 \<lparr>l_email = Some ''x@y.org'', l_password = Some JNull\<rparr> one_user_db
     = \<lparr>status = 401, headers = [], body = ErrorBody ''Invalid email or password''\<rparr>"
proof -
  let ?r1 = "\<lparr>l_email = Some ''a@b.com'', l_password = Some JNull\<rparr>"
  let ?r2 = "\<lparr>l_email = Some ''x@y.org'', l_password = Some JNull\<rparr>"
  have v1: "login_errors auth0 ?r1 = []" and v2: "login_errors auth0 ?r2 = []"
    by (simp_all add: login_errors_def auth0_def field_string_def)
  have n1: "\<forall>s. l_password ?r1 \<noteq> Some (JString s)"
    and n2: "\<forall>s. l_password ?r2 \<noteq> Some (JString s)"
    by simp_all
  have e1: "select_user_by_email (normalizeEmail auth0 (field_string (l_email ?r1))) one_user_db \<noteq> []"
    by (simp add: select_user_by_email_def auth0_def field_string_def one_user_db_def empty_db_def)
  have e2: "select_user_by_email (normalizeEmail auth0 (field_string (l_email ?r2))) one_user_db = []"
    by (simp add: select_user_by_email_def auth0_def field_string_def one_user_db_def empty_db_def)
  show ?thesis
    using password_not_a_string_tells_known_address[OF v1 n1, of one_user_db]
      password_not_a_string_tells_known_address[OF v2 n2, of one_user_db] e1 e2
    by simp
qed

section \<open>Tracking a book\<close>

lemma put_author_frame:
  "users (snd (put_author nm d)) = users d"
  "books (snd (put_author nm d)) = books d"
  "books_id_seq (snd (put_author nm d)) = books_id_seq d"
  "series (snd (put_author nm d)) = series d"
  "series_id_seq (snd (put_author nm d)) = series_id_seq d"
  "book_authors (snd (put_author nm d)) = book_authors d"
  "user_tracked_books (snd (put_author nm d)) = user_tracked_books d"
  "user_tracked_books_id_seq (snd (put_author nm d)) = user_tracked_books_id_seq d"
  "users_id_seq (snd (put_author nm d)) = users_id_seq d"
  by (simp_all add: put_author_def Let_def split: list.splits)

lemma put_series_frame:
  "users (snd (put_series nm d)) = users d"
  "books (snd (put_series nm d)) = books d"
  "books_id_seq (snd (put_series nm d)) = books_id_seq d"
  "authors (snd (put_series nm d)) = authors d"
  "authors_id_seq (snd (put_series nm d)) = authors_id_seq d"
  "book_authors (snd (put_series nm d)) = book_authors d"
  "user_tracked_books (snd (put_series nm d)) = user_tracked_books d"
  "user_tracked_books_id_seq (snd (put_series nm d)) = user_tracked_books_id_seq d"
  "users_id_seq (snd (put_series nm d)) = users_id_seq d"
  by (simp_all add: put_series_def Let_def split: list.splits)

lemma insert_book_author_frame:
  "users (insert_book_author b a ord d) = users d"
  "books (insert_book_author b a ord d) = books d"
  "books_id_seq (insert_book_author b a ord d) = books_id_seq d"
  "series (insert_book_author b a ord d) = series d"
  "series_id_seq (insert_book_author b a ord d) = series_id_seq d"
  "authors (insert_book_author b a ord d) = authors d"
  "authors_id_seq (insert_book_author b a ord d) = authors_id_seq d"
  "user_tracked_books (insert_book_author b a ord d) = user_tracked_books d"
  "user_tracked_books_id_seq (insert_book_author b a ord d) = user_tracked_books_id_seq d"
  "users_id_seq (insert_book_author b a ord d) = users_id_seq d"
  by (simp_all add: insert_book_author_def)

lemma update_book_series_frame:
  "users (update_book_series s b d) = users d"
  "books_id_seq (update_book_series s b d) = books_id_seq d"
  "series (update_book_series s b d) = series d"
  "series_id_seq (update_book_series s b d) = series_id_seq d"
  "authors (update_book_series s b d) = authors d"
  "authors_id_seq (update_book_series s b d) = authors_id_seq d"
  "book_authors (update_book_series s b d) = book_authors d"
  "user_tracked_books (update_book_series s b d) = user_tracked_books d"
  "user_tracked_books_id_seq (update_book_series s b d) = user_tracked_books_id_seq d"
  "users_id_seq (update_book_series s b d) = users_id_seq d"
  by (simp_all add: update_book_series_def)

text \<open>One turn of the loop, for a name that raises and for a name that is stored.\<close>

lemma link_authors_turn:
  "link_authors b i (n # ns) d =
     (case varchar 255 n of
        None \<Rightarrow> (Inl DataException, d)
      | Some v \<Rightarrow>
          link_authors b (Suc i) ns
            (insert_book_author b (fst (put_author v d)) (int i + 1) (snd (put_author v d))))"
  by (simp add: upsert_author_def split: option.splits)

lemma link_authors_step:
  "fits 255 n \<Longrightarrow>
   link_authors b i (n # ns) d =
     link_authors b (Suc i) ns
       (insert_book_author b (fst (put_author n d)) (int i + 1) (snd (put_author n d)))"
  by (simp add: link_authors_turn varchar_fits del: link_authors.simps)

lemma link_authors_frame:
  "users (snd (link_authors b i ns d)) = users d \<and>
   books (snd (link_authors b i ns d)) = books d \<and>
   books_id_seq (snd (link_authors b i ns d)) = books_id_seq d \<and>
   series (snd (link_authors b i ns d)) = series d \<and>
   series_id_seq (snd (link_authors b i ns d)) = series_id_seq d \<and>
   user_tracked_books (snd (link_authors b i ns d)) = user_tracked_books d \<and>
   user_tracked_books_id_seq (snd (link_authors b i ns d)) = user_tracked_books_id_seq d \<and>
   users_id_seq (snd (link_authors b i ns d)) = users_id_seq d"
proof (induction ns arbitrary: i d)
  case Nil
  then show ?case by simp
next
  case (Cons n ns)
  show ?case
  proof (cases "varchar 255 n")
    case None
    then show ?thesis by (simp add: link_authors_turn del: link_authors.simps)
  next
    case (Some v)
    show ?thesis
      using Cons[of "Suc i"
          "insert_book_author b (fst (put_author v d)) (int i + 1) (snd (put_author v d))"]
      by (simp add: link_authors_turn Some put_author_frame insert_book_author_frame
          del: link_authors.simps)
  qed
qed

lemma link_authors_succeeds:
  "list_all (fits 255) ns \<Longrightarrow> fst (link_authors b i ns d) = Inr ()"
proof (induction ns arbitrary: i d)
  case Nil
  then show ?case by simp
next
  case (Cons n ns)
  then have n: "fits 255 n" and ns: "list_all (fits 255) ns" by simp_all
  show ?case using Cons.IH[OF ns] by (simp add: link_authors_step[OF n] del: link_authors.simps)
qed

lemma handle_authors_frame:
  "users (snd (handle_authors b as d)) = users d \<and>
   books (snd (handle_authors b as d)) = books d \<and>
   books_id_seq (snd (handle_authors b as d)) = books_id_seq d \<and>
   series (snd (handle_authors b as d)) = series d \<and>
   series_id_seq (snd (handle_authors b as d)) = series_id_seq d \<and>
   user_tracked_books (snd (handle_authors b as d)) = user_tracked_books d \<and>
   user_tracked_books_id_seq (snd (handle_authors b as d)) = user_tracked_books_id_seq d \<and>
   users_id_seq (snd (handle_authors b as d)) = users_id_seq d"
  by (simp add: handle_authors_def link_authors_frame split: option.splits)

text \<open>
  The series step writes the series table and the \<^verbatim>\<open>series_id\<close> of book rows, nothing
  else: every book row keeps its place, its id and its other columns.
\<close>

lemma handle_series_frame:
  "users (snd (handle_series b sr d)) = users d \<and>
   users_id_seq (snd (handle_series b sr d)) = users_id_seq d \<and>
   authors (snd (handle_series b sr d)) = authors d \<and>
   authors_id_seq (snd (handle_series b sr d)) = authors_id_seq d \<and>
   book_authors (snd (handle_series b sr d)) = book_authors d \<and>
   books_id_seq (snd (handle_series b sr d)) = books_id_seq d \<and>
   user_tracked_books (snd (handle_series b sr d)) = user_tracked_books d \<and>
   user_tracked_books_id_seq (snd (handle_series b sr d)) = user_tracked_books_id_seq d"
  by (simp add: handle_series_def upsert_series_def put_series_frame update_book_series_frame
      split: option.splits)

lemma handle_series_books:
  "map (\<lambda>r. r\<lparr>book_series_id := None\<rparr>) (books (snd (handle_series b sr d)))
     = map (\<lambda>r. r\<lparr>book_series_id := None\<rparr>) (books d)"
  by (simp add: handle_series_def upsert_series_def put_series_frame update_book_series_def
      comp_def split: option.splits)

lemma same_but_series:
  fixes xs ys :: "book_row list"
  assumes "map (\<lambda>r. r\<lparr>book_series_id := None\<rparr>) xs = map (\<lambda>r. r\<lparr>book_series_id := None\<rparr>) ys"
  shows "map book_id xs = map book_id ys"
    and "map google_books_id xs = map google_books_id ys"
    and "map book_title xs = map book_title ys"
proof -
  have "map (f \<circ> (\<lambda>r. r\<lparr>book_series_id := None\<rparr>)) xs = map (f \<circ> (\<lambda>r. r\<lparr>book_series_id := None\<rparr>)) ys"
    for f :: "book_row \<Rightarrow> 'x"
    using arg_cong[OF assms, of "map f"] by simp
  from this[of book_id] this[of google_books_id] this[of book_title]
  show "map book_id xs = map book_id ys"
    and "map google_books_id xs = map google_books_id ys"
    and "map book_title xs = map book_title ys"
    by (simp_all add: comp_def)
qed

lemma filter_map_key:
  "map f (filter (\<lambda>x. k x = v) xs) = filter (\<lambda>y. k' y = v) (map f xs)" if "\<And>x. k' (f x) = k x"
  using that by (induction xs) auto


lemma nullable_varchar:
  "(case x of None \<Rightarrow> True | Some s \<Rightarrow> fits n s) \<Longrightarrow> nullable (varchar n) x = Some x"
  by (simp add: nullable_def varchar_fits split: option.splits)

lemma nullable_date:
  "(case x of None \<Rightarrow> True | Some s \<Rightarrow> date_in pg s \<noteq> None) \<Longrightarrow>
   nullable (date_in pg) x = Some (Option.bind x (date_in pg))"
  by (auto simp: nullable_def split: option.splits)

lemma insert_book_storable:
  assumes "book_storable pg req"
  shows "insert_book pg (b_googleBooksId req) (b_title req) (b_cover req) (b_publishedDate req)
           (b_releaseDate req) d
         = put_book (b_googleBooksId req) (b_title req) (b_cover req)
             (Option.bind (b_publishedDate req) (date_in pg))
             (Option.bind (b_releaseDate req) (date_in pg)) d"
proof -
  have g: "nullable (varchar 255) (b_googleBooksId req) = Some (b_googleBooksId req)"
    and c: "nullable (varchar 500) (b_cover req) = Some (b_cover req)"
    and t: "nullable (varchar 500) (b_title req) = Some (b_title req)"
    using assms by (auto simp: book_storable_def intro!: nullable_varchar split: option.splits)
  have p: "nullable (date_in pg) (b_publishedDate req)
             = Some (Option.bind (b_publishedDate req) (date_in pg))"
    and r: "nullable (date_in pg) (b_releaseDate req)
             = Some (Option.bind (b_releaseDate req) (date_in pg))"
    using assms by (auto simp: book_storable_def intro!: nullable_date)
  show ?thesis by (simp add: insert_book_def g c t p r)
qed

lemma insert_book_frame:
  "users (snd (insert_book pg g t c p r d)) = users d"
  "users_id_seq (snd (insert_book pg g t c p r d)) = users_id_seq d"
  "authors (snd (insert_book pg g t c p r d)) = authors d"
  "authors_id_seq (snd (insert_book pg g t c p r d)) = authors_id_seq d"
  "series (snd (insert_book pg g t c p r d)) = series d"
  "series_id_seq (snd (insert_book pg g t c p r d)) = series_id_seq d"
  "book_authors (snd (insert_book pg g t c p r d)) = book_authors d"
  "user_tracked_books (snd (insert_book pg g t c p r d)) = user_tracked_books d"
  "user_tracked_books_id_seq (snd (insert_book pg g t c p r d)) = user_tracked_books_id_seq d"
  by (simp_all add: insert_book_def put_book_def Let_def split: option.splits)

lemma select_book_text:
  "(case gid of None \<Rightarrow> True | Some g \<Rightarrow> text_in g) \<Longrightarrow>
   select_book_by_google_id gid d = Inr (books_by_google_id gid d)"
  by (auto simp: select_book_by_google_id_def books_by_google_id_def split: option.splits)

text \<open>What ensure_book leaves untouched.\<close>

lemma ensure_book_frame:
  "users (snd (ensure_book pg req d)) = users d \<and>
   user_tracked_books (snd (ensure_book pg req d)) = user_tracked_books d \<and>
   user_tracked_books_id_seq (snd (ensure_book pg req d)) = user_tracked_books_id_seq d"
proof -
  let ?ins = "insert_book pg (b_googleBooksId req) (b_title req) (b_cover req)
                (b_publishedDate req) (b_releaseDate req) d"
  have a: "users (snd (handle_authors b (b_authors req) (snd ?ins))) = users d \<and>
           user_tracked_books (snd (handle_authors b (b_authors req) (snd ?ins)))
             = user_tracked_books d \<and>
           user_tracked_books_id_seq (snd (handle_authors b (b_authors req) (snd ?ins)))
             = user_tracked_books_id_seq d" for b
    by (simp add: handle_authors_frame insert_book_frame)
  have s: "users (snd (handle_series b (b_series req) x)) = users x \<and>
           user_tracked_books (snd (handle_series b (b_series req) x)) = user_tracked_books x \<and>
           user_tracked_books_id_seq (snd (handle_series b (b_series req) x))
             = user_tracked_books_id_seq x" for b x
    by (simp add: handle_series_frame)
  show ?thesis
    unfolding ensure_book_def
    apply (simp split: sum.splits list.splits prod.splits)
    apply (intro conjI allI impI)
    using a s insert_book_frame[of pg "b_googleBooksId req" "b_title req" "b_cover req"
        "b_publishedDate req" "b_releaseDate req" d]
    apply (metis snd_conv)+
    done
qed


lemma put_book_new:
  "books_by_google_id gid d = [] \<Longrightarrow>
   put_book gid (Some t) cov p r d =
     (Inr (books_id_seq d),
      d\<lparr>books_id_seq := Suc (books_id_seq d),
        books := books d @
          [\<lparr>book_id = books_id_seq d, google_books_id = gid, book_title = t, cover_url = cov,
            published_date = p, release_date = r, book_series_id = None\<rparr>]\<rparr>)"
  by (simp add: put_book_def Let_def)

lemma handle_authors_succeeds:
  "authors_storable req \<Longrightarrow> fst (handle_authors b (b_authors req) d) = Inr ()"
  by (simp add: handle_authors_def authors_storable_def link_authors_succeeds split: option.splits)

lemma handle_series_succeeds:
  "series_storable req \<Longrightarrow> fst (handle_series b (b_series req) d) = Inr ()"
  by (auto simp: handle_series_def series_storable_def upsert_series_fits split: option.splits)

text \<open>The state that ensure_book leaves for a book that is new and is stored with its authors.\<close>

lemma ensure_book_new:
  assumes new: "books_by_google_id (b_googleBooksId req) d = []"
    and st: "book_storable pg req" "authors_storable req"
    and ttl: "b_title req = Some t"
    and d1: "d1 = d\<lparr>books_id_seq := Suc (books_id_seq d),
                   books := books d @
                     [\<lparr>book_id = books_id_seq d, google_books_id = b_googleBooksId req,
                       book_title = t, cover_url = b_cover req,
                       published_date = Option.bind (b_publishedDate req) (date_in pg),
                       release_date = Option.bind (b_releaseDate req) (date_in pg),
                       book_series_id = None\<rparr>]\<rparr>"
    and d2: "d2 = snd (handle_authors (books_id_seq d) (b_authors req) d1)"
  shows "ensure_book pg req d =
           (case fst (handle_series (books_id_seq d) (b_series req) d2) of
              Inl err \<Rightarrow> Inl err
            | Inr updated \<Rightarrow> Inr (books_id_seq d),
            snd (handle_series (books_id_seq d) (b_series req) d2))"
proof -
  let ?b = "books_id_seq d"
  have tx: "case b_googleBooksId req of None \<Rightarrow> True | Some g \<Rightarrow> text_in g"
    using st(1) by (auto simp: book_storable_def fits_def split: option.splits)
  have sel: "select_book_by_google_id (b_googleBooksId req) d = Inr []"
    using select_book_text[OF tx, of d] new by simp
  have ins: "insert_book pg (b_googleBooksId req) (b_title req) (b_cover req) (b_publishedDate req)
               (b_releaseDate req) d = (Inr ?b, d1)"
    using insert_book_storable[OF st(1), of d] put_book_new[OF new] by (simp add: ttl d1)
  have au: "handle_authors ?b (b_authors req) d1 = (Inr (), d2)"
    using handle_authors_succeeds[OF st(2), of ?b d1] by (simp add: d2 prod_eq_iff)
  obtain r d3 where se: "handle_series ?b (b_series req) d2 = (r, d3)"
    by (cases "handle_series ?b (b_series req) d2")
  show ?thesis
    by (cases r) (simp_all add: ensure_book_def sel ins au se)
qed

lemma filter_through_map:
  assumes "map f xs = map f ys" and "\<And>x. P x = Q (f x)"
  shows "map f (filter P xs) = map f (filter P ys)"
proof -
  have "map f (filter P zs) = filter Q (map f zs)" for zs
    using assms(2) by (induction zs) auto
  then show ?thesis using assms(1) by simp
qed

text \<open>
  After ensure_book has stored a new book, exactly one row has the request's Google
  Books id; it has the new id and the request's title.
\<close>

lemma ensure_book_new_row:
  assumes new: "books_by_google_id (b_googleBooksId req) d = []"
    and st: "book_storable pg req" "authors_storable req"
    and ttl: "b_title req = Some t"
  shows "\<exists>bk\<in>set (books (snd (ensure_book pg req d))).
            book_id bk = books_id_seq d \<and> google_books_id bk = b_googleBooksId req \<and>
            book_title bk = t \<and>
            (\<forall>g. b_googleBooksId req = Some g \<longrightarrow>
               books_by_google_id (Some g) (snd (ensure_book pg req d)) = [bk])"
proof -
  let ?b = "books_id_seq d"
  let ?strip = "\<lambda>r :: book_row. r\<lparr>book_series_id := None\<rparr>"
  let ?row = "\<lparr>book_id = ?b, google_books_id = b_googleBooksId req, book_title = t,
                cover_url = b_cover req,
                published_date = Option.bind (b_publishedDate req) (date_in pg),
                release_date = Option.bind (b_releaseDate req) (date_in pg),
                book_series_id = None\<rparr>"
  define d1 where "d1 = d\<lparr>books_id_seq := Suc ?b, books := books d @ [?row]\<rparr>"
  define d2 where "d2 = snd (handle_authors ?b (b_authors req) d1)"
  define e where "e = snd (ensure_book pg req d)"
  have e: "e = snd (handle_series ?b (b_series req) d2)"
    using ensure_book_new[OF new st ttl d1_def d2_def] by (simp add: e_def)
  have b2: "books d2 = books d @ [?row]"
    by (simp add: d2_def handle_authors_frame d1_def)
  have m: "map ?strip (books e) = map ?strip (books d) @ [?row]"
    using handle_series_books[of ?b "b_series req" d2] by (simp add: e b2)
  have "?row \<in> set (map ?strip (books e))" using m by simp
  then obtain bk where bk: "bk \<in> set (books e)" "?strip bk = ?row" by auto
  have cols: "book_id bk = ?b" "google_books_id bk = b_googleBooksId req" "book_title bk = t"
    using arg_cong[OF bk(2), of book_id] arg_cong[OF bk(2), of google_books_id]
      arg_cong[OF bk(2), of book_title]
    by simp_all
  have one: "books_by_google_id (Some g) e = [bk]" if g: "b_googleBooksId req = Some g" for g
  proof -
    let ?P = "\<lambda>r :: book_row. google_books_id r = Some g"
    have none: "filter ?P (books d) = []"
      using new g by (simp add: books_by_google_id_def)
    have "map ?strip (filter ?P (books e)) = map ?strip (filter ?P (books d @ [?row]))"
      by (rule filter_through_map[where Q = ?P]) (simp_all add: m)
    then have "map ?strip (filter ?P (books e)) = [?row]"
      using none g by simp
    then obtain x where x: "filter ?P (books e) = [x]"
      by (cases "filter ?P (books e)") auto
    have "bk \<in> set (filter ?P (books e))" using bk(1) cols(2) g by simp
    then have "x = bk" using x by simp
    then show ?thesis using x by (simp add: books_by_google_id_def)
  qed
  show ?thesis using bk(1) cols one unfolding e_def by blast
qed

text \<open>A book that is stored is found, and nothing is written.\<close>

lemma ensure_book_again:
  assumes gid: "b_googleBooksId req = Some g"
    and tx: "text_in g"
    and sel: "books_by_google_id (Some g) d = bk # rest"
  shows "ensure_book pg req d = (Inr (book_id bk), d)"
proof -
  have "select_book_by_google_id (b_googleBooksId req) d = Inr (bk # rest)"
    using select_book_text[of "Some g" d] tx sel gid by simp
  then show ?thesis by (simp add: ensure_book_def)
qed

lemma insert_tracked_result:
  assumes user: "filter (\<lambda>r. user_id r = u) (users d) \<noteq> []"
    and pairs: "distinct (map (\<lambda>r. (utb_user_id r, utb_book_id r)) (user_tracked_books d))"
  shows "fst (insert_user_tracked_book u b d) = Inr () \<and>
         users (snd (insert_user_tracked_book u b d)) = users d \<and>
         books (snd (insert_user_tracked_book u b d)) = books d \<and>
         distinct (map (\<lambda>r. (utb_user_id r, utb_book_id r))
                    (user_tracked_books (snd (insert_user_tracked_book u b d)))) \<and>
         length (filter (\<lambda>r. utb_user_id r = u \<and> utb_book_id r = b)
                  (user_tracked_books (snd (insert_user_tracked_book u b d)))) = 1"
proof (cases "filter (\<lambda>r. utb_user_id r = u \<and> utb_book_id r = b) (user_tracked_books d) = []")
  case True
  then have "(u, b) \<notin> set (map (\<lambda>r. (utb_user_id r, utb_book_id r)) (user_tracked_books d))"
    by (auto simp: filter_empty_conv)
  then show ?thesis using True user pairs
    by (simp add: insert_user_tracked_book_def Let_def)
next
  case False
  have "length (filter (\<lambda>r. (utb_user_id r, utb_book_id r) = (u, b)) (user_tracked_books d)) \<le> 1"
    using filter_distinct_key[OF pairs] .
  then have "length (filter (\<lambda>r. utb_user_id r = u \<and> utb_book_id r = b) (user_tracked_books d)) \<le> 1"
    by simp
  moreover have "length (filter (\<lambda>r. utb_user_id r = u \<and> utb_book_id r = b) (user_tracked_books d)) \<noteq> 0"
    using False by simp
  ultimately have "length (filter (\<lambda>r. utb_user_id r = u \<and> utb_book_id r = b) (user_tracked_books d)) = 1"
    by linarith
  then show ?thesis using False pairs
    by (simp add: insert_user_tracked_book_def Let_def)
qed

lemma insert_tracked_again:
  "filter (\<lambda>r. utb_user_id r = u \<and> utb_book_id r = b) (user_tracked_books d) \<noteq> [] \<Longrightarrow>
   user_tracked_books (snd (insert_user_tracked_book u b d)) = user_tracked_books d"
  by (simp add: insert_user_tracked_book_def Let_def)

lemma filter_distinct_some:
  "distinct (filter (\<lambda>g. g \<noteq> None) (map f xs)) \<Longrightarrow> length (filter (\<lambda>x. f x = Some v) xs) \<le> 1"
proof (induction xs)
  case Nil
  then show ?case by simp
next
  case (Cons x xs)
  show ?case
  proof (cases "f x = Some v")
    case True
    then have "Some v \<notin> set (filter (\<lambda>g. g \<noteq> None) (map f xs))" using Cons.prems by simp
    then have "\<forall>y\<in>set xs. f y \<noteq> Some v" by force
    then have "filter (\<lambda>y. f y = Some v) xs = []" by (simp add: filter_empty_conv)
    then show ?thesis using True by simp
  next
    case False
    then show ?thesis using Cons by (cases "f x") simp_all
  qed
qed

text \<open>A Google Books id that is stored is stored once, and is a text without NUL.\<close>

lemma stored_once:
  assumes "books_ok d" and "books_by_google_id (Some g) d \<noteq> []"
  shows "\<exists>bk. books_by_google_id (Some g) d = [bk] \<and> text_in g"
proof -
  let ?rows = "filter (\<lambda>b. google_books_id b = Some g) (books d)"
  have "length ?rows \<le> 1"
    using assms(1) filter_distinct_some[of google_books_id "books d" g] by (simp add: books_ok_def)
  moreover have ne: "?rows \<noteq> []" using assms(2) by (simp add: books_by_google_id_def)
  ultimately obtain bk where bk: "?rows = [bk]"
    by (cases ?rows) auto
  then have "bk \<in> set ?rows" by simp
  then have "bk \<in> set (books d)" "google_books_id bk = Some g" by simp_all
  then have "fits 255 g" using assms(1) by (force simp: books_ok_def)
  then show ?thesis using bk by (simp add: books_by_google_id_def fits_def)
qed

text \<open>
  Tracking a book that is stored: the answer is 200, the tracking table has one row
  for the pair, and no other table changes.
\<close>

lemma track_stored:
  assumes gid: "b_googleBooksId req = Some g"
    and tx: "text_in g"
    and sel: "books_by_google_id (Some g) d = [bk]"
    and user: "filter (\<lambda>r. user_id r = u) (users d) \<noteq> []"
    and pairs: "distinct (map (\<lambda>r. (utb_user_id r, utb_book_id r)) (user_tracked_books d))"
  shows "\<exists>d1. track_book pg u req d = (json 200 (Success ''Book tracked successfully''), d1) \<and>
              d1 = snd (insert_user_tracked_book u (book_id bk) d) \<and>
              users d1 = users d \<and> books d1 = books d \<and>
              distinct (map (\<lambda>r. (utb_user_id r, utb_book_id r)) (user_tracked_books d1)) \<and>
              length (filter (\<lambda>r. utb_user_id r = u \<and> utb_book_id r = book_id bk)
                        (user_tracked_books d1)) = 1"
proof -
  define d1 where "d1 = snd (insert_user_tracked_book u (book_id bk) d)"
  note i = insert_tracked_result[OF user pairs, of "book_id bk", folded d1_def]
  have ins: "insert_user_tracked_book u (book_id bk) d = (Inr (), d1)"
    using i by (simp add: d1_def prod_eq_iff)
  have "track_book pg u req d = (json 200 (Success ''Book tracked successfully''), d1)"
    by (simp add: track_book_def ensure_book_again[OF gid tx sel] ins)
  then show ?thesis using i d1_def by simp
qed

text \<open>
  Claim C4, as amended. Let the tables \<^verbatim>\<open>books\<close> and \<^verbatim>\<open>user_tracked_books\<close> satisfy
  their constraints, let \<open>u\<close> be a user, and let the request name a book by its Google
  Books id \<open>g\<close>: a book that is stored already, or one that the request describes with
  values of the columns they go to (a title, texts within the lengths of their
  columns, dates that PostgreSQL reads, for the book, its authors and its series).
  Then tracking it twice answers 200 with the success message both times. After the
  first call and after the second, one and the same book row \<open>bk\<close> has the id \<open>g\<close>, and
  \<^verbatim>\<open>user_tracked_books\<close> has exactly one row for \<open>u\<close> and \<open>bk\<close>; the second call leaves
  that table as it was.
\<close>

theorem tracking_idempotent:
  assumes ok: "books_ok d" "user_tracked_books_ok d"
    and user: "filter (\<lambda>r. user_id r = u) (users d) \<noteq> []"
    and gid: "b_googleBooksId req = Some g"
    and st: "books_by_google_id (Some g) d \<noteq> [] \<or>
             book_storable pg req \<and> authors_storable req \<and> series_storable req"
  shows "\<exists>bk d1 d2.
           track_book pg u req d = (json 200 (Success ''Book tracked successfully''), d1) \<and>
           track_book pg u req d1 = (json 200 (Success ''Book tracked successfully''), d2) \<and>
           books_by_google_id (Some g) d1 = [bk] \<and>
           books_by_google_id (Some g) d2 = [bk] \<and>
           length (filter (\<lambda>r. utb_user_id r = u \<and> utb_book_id r = book_id bk)
                     (user_tracked_books d1)) = 1 \<and>
           length (filter (\<lambda>r. utb_user_id r = u \<and> utb_book_id r = book_id bk)
                     (user_tracked_books d2)) = 1 \<and>
           user_tracked_books d2 = user_tracked_books d1"
proof -
  let ?pairs = "\<lambda>x. distinct (map (\<lambda>r. (utb_user_id r, utb_book_id r)) (user_tracked_books x))"
  let ?count = "\<lambda>b x. length (filter (\<lambda>r. utb_user_id r = u \<and> utb_book_id r = b)
                                 (user_tracked_books x))"
  let ?ok = "json 200 (Success ''Book tracked successfully'')"
  have pairs: "?pairs d" using ok(2) by (simp add: user_tracked_books_ok_def)
  have first: "\<exists>bk d1. track_book pg u req d = (?ok, d1) \<and> text_in g \<and>
                 books_by_google_id (Some g) d1 = [bk] \<and>
                 filter (\<lambda>r. user_id r = u) (users d1) \<noteq> [] \<and> ?pairs d1 \<and>
                 ?count (book_id bk) d1 = 1"
  proof (cases "books_by_google_id (Some g) d \<noteq> []")
    case True
    from stored_once[OF ok(1) True] obtain bk where
      sel: "books_by_google_id (Some g) d = [bk]" and tx: "text_in g" by auto
    from track_stored[OF gid tx sel user pairs, of pg] obtain d1 where
      t: "track_book pg u req d = (?ok, d1)" and
      f: "users d1 = users d" "books d1 = books d" "?pairs d1" "?count (book_id bk) d1 = 1"
      by auto
    have "books_by_google_id (Some g) d1 = [bk]"
      using sel f(2) by (simp add: books_by_google_id_def)
    then show ?thesis using t tx f user by auto
  next
    case False
    then have new: "books_by_google_id (b_googleBooksId req) d = []" using gid by simp
    have sto: "book_storable pg req" "authors_storable req" "series_storable req"
      using st False by auto
    obtain t where ttl: "b_title req = Some t"
      using sto(1) by (auto simp: book_storable_def split: option.splits)
    have tx: "text_in g"
      using sto(1) gid by (simp add: book_storable_def fits_def)
    define e where "e = snd (ensure_book pg req d)"
    from ensure_book_new_row[OF new sto(1,2) ttl] gid obtain bk where
      bk: "book_id bk = books_id_seq d" "books_by_google_id (Some g) e = [bk]"
      by (auto simp: e_def)
    have en: "ensure_book pg req d = (Inr (books_id_seq d), e)"
      using ensure_book_new[OF new sto(1,2) ttl refl refl]
        handle_series_succeeds[OF sto(3)]
      by (simp add: e_def)
    have user_e: "filter (\<lambda>r. user_id r = u) (users e) \<noteq> []"
      using user ensure_book_frame[of pg req d] by (simp add: e_def)
    have pairs_e: "?pairs e"
      using pairs ensure_book_frame[of pg req d] by (simp add: e_def)
    define d1 where "d1 = snd (insert_user_tracked_book u (books_id_seq d) e)"
    note i = insert_tracked_result[OF user_e pairs_e, of "books_id_seq d", folded d1_def]
    have ins: "insert_user_tracked_book u (books_id_seq d) e = (Inr (), d1)"
      using i by (simp add: d1_def prod_eq_iff)
    have t: "track_book pg u req d = (?ok, d1)"
      by (simp add: track_book_def en ins)
    have "books_by_google_id (Some g) d1 = [bk]"
      using bk(2) i by (simp add: books_by_google_id_def)
    then show ?thesis using t tx i user_e bk(1) by auto
  qed
  then obtain bk d1 where
    t1: "track_book pg u req d = (?ok, d1)" and tx: "text_in g" and
    sel1: "books_by_google_id (Some g) d1 = [bk]" and
    user1: "filter (\<lambda>r. user_id r = u) (users d1) \<noteq> []" and pairs1: "?pairs d1" and
    c1: "?count (book_id bk) d1 = 1"
    by blast
  from track_stored[OF gid tx sel1 user1 pairs1, of pg] obtain d2 where
    t2: "track_book pg u req d1 = (?ok, d2)" and
    d2: "d2 = snd (insert_user_tracked_book u (book_id bk) d1)" and
    f2: "books d2 = books d1" "?count (book_id bk) d2 = 1"
    by auto
  have sel2: "books_by_google_id (Some g) d2 = [bk]"
    using sel1 f2(1) by (simp add: books_by_google_id_def)
  have "filter (\<lambda>r. utb_user_id r = u \<and> utb_book_id r = book_id bk) (user_tracked_books d1) \<noteq> []"
    using c1 by auto
  then have same: "user_tracked_books d2 = user_tracked_books d1"
    unfolding d2 by (rule insert_tracked_again)
  show ?thesis using t1 t2 sel1 sel2 c1 f2(2) same by blast
qed

lemma same_key_same_row:
  "distinct (map f xs) \<Longrightarrow> x \<in> set xs \<Longrightarrow> y \<in> set xs \<Longrightarrow> f x = f y \<Longrightarrow> x = y"
  by (meson distinct_map inj_onD)

lemma put_author_ok:
  assumes "authors_ok d" and "fits 255 nm"
  shows "authors_ok (snd (put_author nm d)) \<and>
         set (authors d) \<subseteq> set (authors (snd (put_author nm d))) \<and>
         \<lparr>author_id = fst (put_author nm d), author_name = nm\<rparr>
           \<in> set (authors (snd (put_author nm d)))"
proof (cases "filter (\<lambda>a. author_name a = nm) (authors d)")
  case Nil
  then have fresh: "nm \<notin> author_name ` set (authors d)"
    by (auto simp: filter_empty_conv)
  have ids: "authors_id_seq d \<notin> author_id ` set (authors d)"
    using assms(1) by (auto simp: authors_ok_def)
  show ?thesis
    using assms fresh ids
    by (auto simp: put_author_new[OF Nil] authors_ok_def less_Suc_eq)
next
  case (Cons a as)
  have "a \<in> set (filter (\<lambda>a. author_name a = nm) (authors d))" using Cons by simp
  then have a: "a \<in> set (authors d)" "author_name a = nm" by simp_all
  have "\<lparr>author_id = author_id a, author_name = nm\<rparr> = a"
    using a(2) by (cases a) auto
  then have "\<lparr>author_id = author_id a, author_name = nm\<rparr> \<in> set (authors d)"
    using a(1) by metis
  then show ?thesis
    using assms(1) by (auto simp: put_author_old[OF Cons] authors_ok_def less_Suc_eq)
qed

lemma insert_book_author_links:
  "set (book_authors d) \<subseteq> set (book_authors (insert_book_author b a ord d)) \<and>
   set (book_authors (insert_book_author b a ord d))
     \<subseteq> insert \<lparr>ba_book_id = b, ba_author_id = a, author_order = ord\<rparr> (set (book_authors d)) \<and>
   ((\<forall>l\<in>set (book_authors d). \<not> (ba_book_id l = b \<and> ba_author_id l = a)) \<longrightarrow>
      \<lparr>ba_book_id = b, ba_author_id = a, author_order = ord\<rparr>
        \<in> set (book_authors (insert_book_author b a ord d)))"
  by (auto simp: insert_book_author_def filter_empty_conv)

lemma insert_book_author_authors_ok:
  "authors_ok (insert_book_author b a ord d) = authors_ok d"
  by (simp add: authors_ok_def insert_book_author_frame)

text \<open>The loop only adds authors and links, and every name ends up with an author row.\<close>

lemma link_authors_grows:
  "authors_ok d \<Longrightarrow> list_all (fits 255) ns \<Longrightarrow>
   authors_ok (snd (link_authors b i ns d)) \<and>
   set (authors d) \<subseteq> set (authors (snd (link_authors b i ns d))) \<and>
   set (book_authors d) \<subseteq> set (book_authors (snd (link_authors b i ns d))) \<and>
   (\<forall>n\<in>set ns. \<exists>a\<in>set (authors (snd (link_authors b i ns d))). author_name a = n)"
proof (induction ns arbitrary: i d)
  case Nil
  then show ?case by simp
next
  case (Cons n ns)
  have fn: "fits 255 n" and fns: "list_all (fits 255) ns" using Cons.prems(2) by simp_all
  let ?r = "put_author n d"
  let ?d2 = "insert_book_author b (fst ?r) (int i + 1) (snd ?r)"
  note u = put_author_ok[OF Cons.prems(1) fn]
  have ok2: "authors_ok ?d2" using u by (simp add: insert_book_author_authors_ok)
  note ih = Cons.IH[OF ok2 fns, of "Suc i"]
  have a2: "authors ?d2 = authors (snd ?r)" by (simp add: insert_book_author_frame)
  have l2: "set (book_authors d) \<subseteq> set (book_authors ?d2)"
    using insert_book_author_links[of "snd ?r" b "fst ?r" "int i + 1"]
    by (simp add: put_author_frame)
  note step = link_authors_step[OF fn, of b i ns d]
  have "\<lparr>author_id = fst ?r, author_name = n\<rparr>
          \<in> set (authors (snd (link_authors b (Suc i) ns ?d2)))"
    using u ih a2 by auto
  then have n: "\<exists>a\<in>set (authors (snd (link_authors b (Suc i) ns ?d2))). author_name a = n"
    by force
  show ?case
    unfolding step using ih u a2 l2 n by auto
qed

text \<open>
  A name at its first position \<open>k\<close> in the remaining list gets the order \<open>i + k + 1\<close>,
  provided the book has no link to that author yet.
\<close>

lemma link_authors_order:
  assumes "authors_ok d"
    and "list_all (fits 255) ns"
    and "k < length ns"
    and "ns ! k \<notin> set (take k ns)"
    and "a \<in> set (authors (snd (link_authors b i ns d)))"
    and "author_name a = ns ! k"
    and "\<forall>l\<in>set (book_authors d). \<not> (ba_book_id l = b \<and> ba_author_id l = author_id a)"
  shows "\<lparr>ba_book_id = b, ba_author_id = author_id a, author_order = int i + int k + 1\<rparr>
           \<in> set (book_authors (snd (link_authors b i ns d)))"
  using assms
proof (induction ns arbitrary: i k d)
  case Nil
  then show ?case by simp
next
  case (Cons n ns)
  have fn: "fits 255 n" and fns: "list_all (fits 255) ns" using Cons.prems(2) by simp_all
  let ?r = "put_author n d"
  let ?d2 = "insert_book_author b (fst ?r) (int i + 1) (snd ?r)"
  let ?out = "snd (link_authors b (Suc i) ns ?d2)"
  note u = put_author_ok[OF Cons.prems(1) fn]
  have ok2: "authors_ok ?d2" using u by (simp add: insert_book_author_authors_ok)
  note g = link_authors_grows[OF ok2 fns, of b "Suc i"]
  note step = link_authors_step[OF fn, of b i ns d]
  have a_in: "a \<in> set (authors ?out)" using Cons.prems(5) step by simp
  have rn: "\<lparr>author_id = fst ?r, author_name = n\<rparr> \<in> set (authors ?out)"
    using u g by (auto simp: insert_book_author_frame)
  have names: "distinct (map author_name (authors ?out))"
    and ids: "distinct (map author_id (authors ?out))"
    using g by (simp_all add: authors_ok_def)
  note links = insert_book_author_links[of "snd ?r" b "fst ?r" "int i + 1"]
  have same_links: "book_authors (snd ?r) = book_authors d" by (simp add: put_author_frame)
  show ?case
  proof (cases k)
    case 0
    then have "author_name a = n" using Cons.prems(6) by simp
    then have "a = \<lparr>author_id = fst ?r, author_name = n\<rparr>"
      using same_key_same_row[OF names a_in rn] by simp
    then have id: "author_id a = fst ?r" by (metis author_row.select_convs(1))
    have "\<lparr>ba_book_id = b, ba_author_id = fst ?r, author_order = int i + 1\<rparr> \<in> set (book_authors ?d2)"
      using links Cons.prems(7) id same_links by simp
    then show ?thesis using g 0 id step by auto
  next
    case (Suc k')
    have k': "k' < length ns" using Cons.prems(3) Suc by simp
    have neq: "ns ! k' \<noteq> n" and first: "ns ! k' \<notin> set (take k' ns)"
      using Cons.prems(4) Suc by simp_all
    have nm: "author_name a = ns ! k'" using Cons.prems(6) Suc by simp
    have "author_id a \<noteq> fst ?r"
    proof
      assume "author_id a = fst ?r"
      then have "a = \<lparr>author_id = fst ?r, author_name = n\<rparr>"
        using same_key_same_row[OF ids a_in rn] by simp
      then have "author_name a = n" by (metis author_row.select_convs(2))
      then show False using nm neq by simp
    qed
    then have other: "author_id a \<noteq> fst ?r" .
    have none: "\<forall>l\<in>set (book_authors ?d2). \<not> (ba_book_id l = b \<and> ba_author_id l = author_id a)"
    proof (intro ballI notI)
      fix l
      assume l: "l \<in> set (book_authors ?d2)"
        and hit: "ba_book_id l = b \<and> ba_author_id l = author_id a"
      from links l have "l = \<lparr>ba_book_id = b, ba_author_id = fst ?r, author_order = int i + 1\<rparr>
          \<or> l \<in> set (book_authors d)"
        using same_links by auto
      then show False
      proof
        assume "l = \<lparr>ba_book_id = b, ba_author_id = fst ?r, author_order = int i + 1\<rparr>"
        then have "ba_author_id l = fst ?r" by simp
        then show False using hit other by simp
      next
        assume "l \<in> set (book_authors d)"
        then show False using Cons.prems(7) hit by blast
      qed
    qed
    from Cons.IH[OF ok2 fns k' first a_in nm none]
    show ?thesis using step Suc by simp
  qed
qed

lemma first_occurrence:
  "i < length xs \<Longrightarrow> \<exists>j\<le>i. xs ! j = xs ! i \<and> xs ! j \<notin> set (take j xs)"
proof (induction i rule: less_induct)
  case (less i)
  show ?case
  proof (cases "xs ! i \<in> set (take i xs)")
    case False
    then show ?thesis by auto
  next
    case True
    then obtain k where k: "k < i" "xs ! k = xs ! i"
      using less.prems by (auto simp: in_set_conv_nth)
    from less.IH[OF k(1)] less.prems k obtain j where "j \<le> k" "xs ! j = xs ! k" "xs ! j \<notin> set (take j xs)"
      by auto
    then show ?thesis using k by (intro exI[of _ j]) auto
  qed
qed

text \<open>The primary key of \<^verbatim>\<open>book_authors\<close> is kept by a link insert and by the loop.\<close>

lemma insert_book_author_keys:
  assumes "distinct (map (\<lambda>r. (ba_book_id r, ba_author_id r)) (book_authors d))"
  shows "distinct (map (\<lambda>r. (ba_book_id r, ba_author_id r))
                    (book_authors (insert_book_author b a ord d)))"
proof (cases "filter (\<lambda>r. ba_book_id r = b \<and> ba_author_id r = a) (book_authors d) = []")
  case False
  then show ?thesis using assms by (simp add: insert_book_author_def)
next
  case True
  then have "(b, a) \<notin> set (map (\<lambda>r. (ba_book_id r, ba_author_id r)) (book_authors d))"
    by (auto simp: filter_empty_conv)
  then show ?thesis using True assms by (simp add: insert_book_author_def)
qed

lemma link_authors_keys:
  "distinct (map (\<lambda>r. (ba_book_id r, ba_author_id r)) (book_authors d)) \<Longrightarrow>
   distinct (map (\<lambda>r. (ba_book_id r, ba_author_id r))
              (book_authors (snd (link_authors b i ns d))))"
proof (induction ns arbitrary: i d)
  case Nil
  then show ?case by simp
next
  case (Cons n ns)
  show ?case
  proof (cases "varchar 255 n")
    case None
    then show ?thesis using Cons.prems by (simp add: link_authors_turn del: link_authors.simps)
  next
    case (Some v)
    let ?d2 = "insert_book_author b (fst (put_author v d)) (int i + 1) (snd (put_author v d))"
    have "distinct (map (\<lambda>r. (ba_book_id r, ba_author_id r)) (book_authors (snd (put_author v d))))"
      using Cons.prems by (simp add: put_author_frame)
    then have "distinct (map (\<lambda>r. (ba_book_id r, ba_author_id r)) (book_authors ?d2))"
      by (rule insert_book_author_keys)
    from Cons.IH[OF this, of "Suc i"] show ?thesis
      by (simp add: link_authors_turn Some del: link_authors.simps)
  qed
qed

text \<open>
  Every link that the loop adds is the link of a name at its first position, with
  that position as its order: a name that comes again adds nothing.
\<close>

lemma link_authors_only:
  assumes "authors_ok d"
    and "list_all (fits 255) ns"
    and "distinct (map (\<lambda>r. (ba_book_id r, ba_author_id r)) (book_authors d))"
    and "l \<in> set (book_authors (snd (link_authors b i ns d)))"
    and "l \<notin> set (book_authors d)"
  shows "\<exists>k<length ns. ns ! k \<notin> set (take k ns) \<and>
           (\<exists>a\<in>set (authors (snd (link_authors b i ns d))). author_name a = ns ! k \<and>
              l = \<lparr>ba_book_id = b, ba_author_id = author_id a, author_order = int i + int k + 1\<rparr>)"
  using assms
proof (induction ns arbitrary: i d)
  case Nil
  then show ?case by simp
next
  case (Cons n ns)
  have fn: "fits 255 n" and fns: "list_all (fits 255) ns" using Cons.prems(2) by simp_all
  let ?r = "put_author n d"
  let ?d2 = "insert_book_author b (fst ?r) (int i + 1) (snd ?r)"
  let ?out = "snd (link_authors b (Suc i) ns ?d2)"
  let ?key = "\<lambda>r. (ba_book_id r, ba_author_id r)"
  note u = put_author_ok[OF Cons.prems(1) fn]
  have ok2: "authors_ok ?d2" using u by (simp add: insert_book_author_authors_ok)
  note g = link_authors_grows[OF ok2 fns, of b "Suc i"]
  note step = link_authors_step[OF fn, of b i ns d]
  have l_out: "l \<in> set (book_authors ?out)" using Cons.prems(4) step by simp
  have rn: "\<lparr>author_id = fst ?r, author_name = n\<rparr> \<in> set (authors ?out)"
    using u g by (auto simp: insert_book_author_frame)
  have names: "distinct (map author_name (authors ?out))"
    using g by (simp add: authors_ok_def)
  note links = insert_book_author_links[of "snd ?r" b "fst ?r" "int i + 1"]
  have same_links: "book_authors (snd ?r) = book_authors d" by (simp add: put_author_frame)
  have keys1: "distinct (map ?key (book_authors (snd ?r)))"
    using Cons.prems(3) same_links by simp
  have keys2: "distinct (map ?key (book_authors ?d2))"
    using keys1 by (rule insert_book_author_keys)
  have keys_out: "distinct (map ?key (book_authors ?out))"
    using keys2 by (rule link_authors_keys)
  show ?case
  proof (cases "l \<in> set (book_authors ?d2)")
    case True
    then have "l = \<lparr>ba_book_id = b, ba_author_id = fst ?r, author_order = int i + 1\<rparr>"
      using links Cons.prems(5) same_links by auto
    then have "(n # ns) ! 0 \<notin> set (take 0 (n # ns)) \<and>
           (\<exists>a\<in>set (authors ?out). author_name a = (n # ns) ! 0 \<and>
              l = \<lparr>ba_book_id = b, ba_author_id = author_id a, author_order = int i + int 0 + 1\<rparr>)"
      using rn by (intro conjI bexI[of _ "\<lparr>author_id = fst ?r, author_name = n\<rparr>"]) simp_all
    then show ?thesis unfolding step by (intro exI[of _ 0]) simp
  next
    case False
    from Cons.IH[OF ok2 fns keys2 l_out False] obtain k a where
      k: "k < length ns" "ns ! k \<notin> set (take k ns)" and
      a: "a \<in> set (authors ?out)" "author_name a = ns ! k" and
      l: "l = \<lparr>ba_book_id = b, ba_author_id = author_id a,
                author_order = int (Suc i) + int k + 1\<rparr>"
      by auto
    have neq: "ns ! k \<noteq> n"
    proof
      assume eq: "ns ! k = n"
      then have "a = \<lparr>author_id = fst ?r, author_name = n\<rparr>"
        using same_key_same_row[OF names a(1) rn] a(2) by simp
      then have id: "author_id a = fst ?r" by (metis author_row.select_convs(1))
      have "\<exists>l2\<in>set (book_authors ?d2). ba_book_id l2 = b \<and> ba_author_id l2 = fst ?r"
      proof (cases "\<forall>x\<in>set (book_authors (snd ?r)). \<not> (ba_book_id x = b \<and> ba_author_id x = fst ?r)")
        case True
        then have "\<lparr>ba_book_id = b, ba_author_id = fst ?r, author_order = int i + 1\<rparr>
                     \<in> set (book_authors ?d2)"
          using links by simp
        then show ?thesis by force
      next
        case False
        then show ?thesis using links by blast
      qed
      then obtain l2 where l2: "l2 \<in> set (book_authors ?d2)"
        "ba_book_id l2 = b" "ba_author_id l2 = fst ?r"
        by auto
      have "l2 \<in> set (book_authors ?out)" using l2(1) g by auto
      moreover have "?key l2 = ?key l" using l2 l id by simp
      ultimately have "l2 = l" using same_key_same_row[OF keys_out _ l_out] by simp
      then show False using l2(1) False by simp
    qed
    have "(n # ns) ! Suc k \<notin> set (take (Suc k) (n # ns))"
      using k(2) neq by simp
    moreover have "\<exists>a\<in>set (authors ?out). author_name a = (n # ns) ! Suc k \<and>
              l = \<lparr>ba_book_id = b, ba_author_id = author_id a,
                    author_order = int i + int (Suc k) + 1\<rparr>"
      using a l by (intro bexI[of _ a]) simp_all
    ultimately show ?thesis
      unfolding step using k(1) by (intro exI[of _ "Suc k"]) simp
  qed
qed

lemma insert_user_tracked_book_frame:
  "authors (snd (insert_user_tracked_book u b d)) = authors d"
  "book_authors (snd (insert_user_tracked_book u b d)) = book_authors d"
  "books (snd (insert_user_tracked_book u b d)) = books d"
  by (simp_all add: insert_user_tracked_book_def Let_def)


lemma track_book_keeps_ensured:
  "authors (snd (track_book pg u req d)) = authors (snd (ensure_book pg req d)) \<and>
   book_authors (snd (track_book pg u req d)) = book_authors (snd (ensure_book pg req d)) \<and>
   books (snd (track_book pg u req d)) = books (snd (ensure_book pg req d))"
proof (cases "ensure_book pg req d")
  case (Pair r e1)
  show ?thesis
  proof (cases r)
    case (Inl err)
    then show ?thesis using Pair by (simp add: track_book_def)
  next
    case (Inr b)
    obtain r2 e2 where i: "insert_user_tracked_book u b e1 = (r2, e2)"
      by (cases "insert_user_tracked_book u b e1")
    have "snd (track_book pg u req d) = e2"
      using Pair Inr i by (cases r2) (simp_all add: track_book_def)
    moreover have "authors e2 = authors e1" "book_authors e2 = book_authors e1" "books e2 = books e1"
      using insert_user_tracked_book_frame[of u b e1] i by simp_all
    ultimately show ?thesis using Pair by simp
  qed
qed

text \<open>
  Claim C7, as amended. Let the database satisfy the constraints of \<^verbatim>\<open>authors\<close>,
  \<^verbatim>\<open>books\<close> and \<^verbatim>\<open>book_authors\<close>, and let a track-book request carry a Google Books id
  that no book row has, a title and a non-empty list of author names, all of them
  values of the columns they go to (texts within the lengths of their columns, dates
  that PostgreSQL reads). After the request a book row with the new id, that Google
  Books id and that title exists. For every name at a position \<open>i\<close> (from 0) where it
  occurs for the first time, an author row with that name exists and a
  \<^verbatim>\<open>book_authors\<close> row links the book to it with \<^verbatim>\<open>author_order\<close> \<open>i + 1\<close>. Every name of
  the list, repeated or not, has an author row that is linked to the book with the
  order of the name's first occurrence. The book has no other links: every
  \<^verbatim>\<open>book_authors\<close> row of the book is the row of a name at its first position, and no
  two rows of the table have the same book and author.
\<close>

theorem new_book_authors_linked:
  assumes ok: "authors_ok d" "books_ok d" "book_authors_ok d"
    and new: "books_by_google_id (b_googleBooksId req) d = []"
    and st: "book_storable pg req" "authors_storable req"
    and ttl: "b_title req = Some t"
    and names: "b_authors req = Some ns" "ns \<noteq> []"
    and d': "d' = snd (track_book pg u req d)"
  shows "(\<exists>bk\<in>set (books d').
            book_id bk = books_id_seq d \<and> google_books_id bk = b_googleBooksId req \<and>
            book_title bk = t) \<and>
         (\<forall>i<length ns. ns ! i \<notin> set (take i ns) \<longrightarrow>
            (\<exists>a\<in>set (authors d'). author_name a = ns ! i \<and>
               \<lparr>ba_book_id = books_id_seq d, ba_author_id = author_id a,
                 author_order = int i + 1\<rparr> \<in> set (book_authors d'))) \<and>
         (\<forall>i<length ns. \<exists>j\<le>i. ns ! j = ns ! i \<and> ns ! j \<notin> set (take j ns) \<and>
            (\<exists>a\<in>set (authors d'). author_name a = ns ! i \<and>
               \<lparr>ba_book_id = books_id_seq d, ba_author_id = author_id a,
                 author_order = int j + 1\<rparr> \<in> set (book_authors d'))) \<and>
         (\<forall>l\<in>set (book_authors d'). ba_book_id l = books_id_seq d \<longrightarrow>
            (\<exists>i<length ns. ns ! i \<notin> set (take i ns) \<and>
               (\<exists>a\<in>set (authors d'). author_name a = ns ! i \<and>
                  l = \<lparr>ba_book_id = books_id_seq d, ba_author_id = author_id a,
                        author_order = int i + 1\<rparr>))) \<and>
         distinct (map (\<lambda>r. (ba_book_id r, ba_author_id r)) (book_authors d'))"
proof -
  let ?b = "books_id_seq d"
  define d1 where "d1 = d\<lparr>books_id_seq := Suc (books_id_seq d),
                   books := books d @
                     [\<lparr>book_id = books_id_seq d, google_books_id = b_googleBooksId req,
                       book_title = t, cover_url = b_cover req,
                       published_date = Option.bind (b_publishedDate req) (date_in pg),
                       release_date = Option.bind (b_releaseDate req) (date_in pg),
                       book_series_id = None\<rparr>]\<rparr>"
  define d2 where "d2 = snd (link_authors ?b 0 ns d1)"
  have h2: "d2 = snd (handle_authors ?b (b_authors req) d1)"
    using names by (simp add: d2_def handle_authors_def)
  have e: "snd (ensure_book pg req d) = snd (handle_series ?b (b_series req) d2)"
    using ensure_book_new[OF new st ttl d1_def h2] by simp
  note k = track_book_keeps_ensured[of pg u req d]
  have au: "authors d' = authors d2" and li: "book_authors d' = book_authors d2"
    using e k d' handle_series_frame[of ?b "b_series req" d2] by simp_all
  have bk: "\<exists>bk\<in>set (books d'). book_id bk = ?b \<and> google_books_id bk = b_googleBooksId req \<and>
            book_title bk = t"
    using ensure_book_new_row[OF new st ttl] k d' by auto
  have fns: "list_all (fits 255) ns"
    using st(2) names(1) by (simp add: authors_storable_def)
  have ok1: "authors_ok d1" using ok(1) by (simp add: authors_ok_def d1_def)
  have keys1: "distinct (map (\<lambda>r. (ba_book_id r, ba_author_id r)) (book_authors d1))"
    using ok(3) by (simp add: book_authors_ok_def d1_def)
  have fresh: "\<forall>l\<in>set (book_authors d1). ba_book_id l \<noteq> ?b"
  proof
    fix l assume "l \<in> set (book_authors d1)"
    then have "l \<in> set (book_authors d)" by (simp add: d1_def)
    then have "ba_book_id l \<in> book_id ` set (books d)"
      using ok(3) by (simp add: book_authors_ok_def)
    then have "ba_book_id l < ?b" using ok(2) by (auto simp: books_ok_def)
    then show "ba_book_id l \<noteq> ?b" by simp
  qed
  note g = link_authors_grows[OF ok1 fns, of ?b 0, folded d2_def]
  have first: "\<exists>a\<in>set (authors d'). author_name a = ns ! i \<and>
               \<lparr>ba_book_id = ?b, ba_author_id = author_id a, author_order = int i + 1\<rparr>
                 \<in> set (book_authors d')"
    if i: "i < length ns" and f: "ns ! i \<notin> set (take i ns)" for i
  proof -
    obtain a where a: "a \<in> set (authors d2)" "author_name a = ns ! i"
      using g i by (metis nth_mem)
    have none: "\<forall>l\<in>set (book_authors d1). \<not> (ba_book_id l = ?b \<and> ba_author_id l = author_id a)"
      using fresh by simp
    have "\<lparr>ba_book_id = ?b, ba_author_id = author_id a, author_order = int 0 + int i + 1\<rparr>
            \<in> set (book_authors (snd (link_authors ?b 0 ns d1)))"
      by (rule link_authors_order[OF ok1 fns i f a(1)[unfolded d2_def] a(2) none])
    then show ?thesis using a au li by (auto simp: d2_def)
  qed
  have every: "\<exists>j\<le>i. ns ! j = ns ! i \<and> ns ! j \<notin> set (take j ns) \<and>
            (\<exists>a\<in>set (authors d'). author_name a = ns ! i \<and>
               \<lparr>ba_book_id = ?b, ba_author_id = author_id a, author_order = int j + 1\<rparr>
                 \<in> set (book_authors d'))"
    if i: "i < length ns" for i
  proof -
    obtain j where j: "j \<le> i" "ns ! j = ns ! i" "ns ! j \<notin> set (take j ns)"
      using first_occurrence[OF i] by auto
    have "j < length ns" using j(1) i by simp
    from first[OF this j(3)] show ?thesis using j by auto
  qed
  have only: "\<exists>i<length ns. ns ! i \<notin> set (take i ns) \<and>
               (\<exists>a\<in>set (authors d'). author_name a = ns ! i \<and>
                  l = \<lparr>ba_book_id = ?b, ba_author_id = author_id a, author_order = int i + 1\<rparr>)"
    if l: "l \<in> set (book_authors d')" and lb: "ba_book_id l = ?b" for l
  proof -
    have in2: "l \<in> set (book_authors (snd (link_authors ?b 0 ns d1)))"
      using l li by (simp add: d2_def)
    have out1: "l \<notin> set (book_authors d1)" using fresh lb by auto
    from link_authors_only[OF ok1 fns keys1 in2 out1]
    show ?thesis using au by (simp add: d2_def)
  qed
  have keys: "distinct (map (\<lambda>r. (ba_book_id r, ba_author_id r)) (book_authors d'))"
    using link_authors_keys[OF keys1, of ?b 0 ns] li by (simp add: d2_def)
  show ?thesis using bk first every only keys by blast
qed

lemmas run_defs = track_book_def ensure_book_def insert_book_def put_book_def upsert_author_def
  put_author_def upsert_series_def put_series_def update_book_series_def insert_book_author_def
  insert_user_tracked_book_def select_book_by_google_id_def books_by_google_id_def
  handle_authors_def handle_series_def varchar_def text_in_def nullable_def pg0_def
  one_user_db_def empty_db_def x1_req_def Let_def json_def

lemma x1_run:
  "track_book pg0 1 x1_req one_user_db =
     (\<lparr>status = 200, headers = [], body = Success ''Book tracked successfully''\<rparr>,
      one_user_db\<lparr>
        authors := [\<lparr>author_id = 1, author_name = ''Jane Doe''\<rparr>,
                    \<lparr>author_id = 2, author_name = ''John Roe''\<rparr>],
        authors_id_seq := 3,
        books := [\<lparr>book_id = 1, google_books_id = Some ''X1'', book_title = ''A Book'',
                    cover_url = None, published_date = Some (- 1614), release_date = None,
                    book_series_id = None\<rparr>],
        books_id_seq := 2,
        book_authors := [\<lparr>ba_book_id = 1, ba_author_id = 1, author_order = 1\<rparr>,
                         \<lparr>ba_book_id = 1, ba_author_id = 2, author_order = 2\<rparr>],
        user_tracked_books := [\<lparr>utb_id = 1, utb_user_id = 1, utb_book_id = 1\<rparr>],
        user_tracked_books_id_seq := 2\<rparr>)"
  by (simp add: run_defs)

lemma x1_storable: "book_storable pg0 x1_req" "authors_storable x1_req" "series_storable x1_req"
  by (simp_all add: book_storable_def authors_storable_def series_storable_def x1_req_def
      fits_def text_in_def pg0_def)

lemma one_user_db_ok:
  "authors_ok one_user_db" "books_ok one_user_db" "book_authors_ok one_user_db"
  "user_tracked_books_ok one_user_db"
  by (simp_all add: authors_ok_def books_ok_def book_authors_ok_def user_tracked_books_ok_def
      one_user_db_def empty_db_def)

text \<open>
  The scenario of the specification, with a title and a date of publication: one
  book row, the authors ``Jane Doe'' and ``John Roe'' linked with the orders 1 and 2.
\<close>

theorem new_book_authors_linked_witness:
  "(\<exists>bk\<in>set (books (snd (track_book pg0 1 x1_req one_user_db))).
      book_id bk = 1 \<and> google_books_id bk = Some ''X1'' \<and> book_title bk = ''A Book'') \<and>
   (\<exists>a\<in>set (authors (snd (track_book pg0 1 x1_req one_user_db))). author_name a = ''Jane Doe'' \<and>
      \<lparr>ba_book_id = 1, ba_author_id = author_id a, author_order = 1\<rparr>
        \<in> set (book_authors (snd (track_book pg0 1 x1_req one_user_db)))) \<and>
   (\<exists>a\<in>set (authors (snd (track_book pg0 1 x1_req one_user_db))). author_name a = ''John Roe'' \<and>
      \<lparr>ba_book_id = 1, ba_author_id = author_id a, author_order = 2\<rparr>
        \<in> set (book_authors (snd (track_book pg0 1 x1_req one_user_db)))) \<and>
   distinct (map (\<lambda>r. (ba_book_id r, ba_author_id r))
              (book_authors (snd (track_book pg0 1 x1_req one_user_db))))"
proof -
  have new: "books_by_google_id (b_googleBooksId x1_req) one_user_db = []"
    by (simp add: books_by_google_id_def x1_req_def one_user_db_def empty_db_def)
  have ttl: "b_title x1_req = Some ''A Book''" by (simp add: x1_req_def)
  have names: "b_authors x1_req = Some [''Jane Doe'', ''John Roe'']"
    "[''Jane Doe'', ''John Roe''] \<noteq> []"
    by (simp_all add: x1_req_def)
  have seq: "books_id_seq one_user_db = 1" by (simp add: one_user_db_def empty_db_def)
  note t = new_book_authors_linked[OF one_user_db_ok(1,2,3) new x1_storable(1,2) ttl names refl,
      of 1, unfolded seq]
  note first = t[THEN conjunct2, THEN conjunct1, rule_format]
  have 0: "\<exists>a\<in>set (authors (snd (track_book pg0 1 x1_req one_user_db))). author_name a = ''Jane Doe'' \<and>
      \<lparr>ba_book_id = 1, ba_author_id = author_id a, author_order = 1\<rparr>
        \<in> set (book_authors (snd (track_book pg0 1 x1_req one_user_db)))"
    using first[of 0] by simp
  have 1: "\<exists>a\<in>set (authors (snd (track_book pg0 1 x1_req one_user_db))). author_name a = ''John Roe'' \<and>
      \<lparr>ba_book_id = 1, ba_author_id = author_id a, author_order = 2\<rparr>
        \<in> set (book_authors (snd (track_book pg0 1 x1_req one_user_db)))"
    using first[of 1] by simp
  have bk: "\<exists>bk\<in>set (books (snd (track_book pg0 1 x1_req one_user_db))).
      book_id bk = 1 \<and> google_books_id bk = Some ''X1'' \<and> book_title bk = ''A Book''"
    using t[THEN conjunct1] by (simp add: x1_req_def)
  have keys: "distinct (map (\<lambda>r. (ba_book_id r, ba_author_id r))
              (book_authors (snd (track_book pg0 1 x1_req one_user_db))))"
    using t by blast
  show ?thesis using bk 0 1 keys by blast
qed

text \<open>
  Claim C7 as stated fails. When a name is repeated, the second link insert meets the
  primary key \<^verbatim>\<open>(book_id, author_id)\<close> and is dropped by \<^verbatim>\<open>ON CONFLICT DO NOTHING\<close>: no
  row has the order 2. When the request has no title, the book insert violates
  \<^verbatim>\<open>NOT NULL\<close>, the answer is 500 and no book row exists; the same when its date of
  publication is a year alone, which is no \<^verbatim>\<open>DATE\<close>. When the second name has 256
  letters, the loop ends there with 500: the book and the first link stay, the second
  name has no author row and no link.
\<close>

theorem repeated_author_or_missing_title:
  "book_authors (snd (track_book pg0 1 (x1_req\<lparr>b_authors := Some [''Jane Doe'', ''Jane Doe'']\<rparr>)
                        one_user_db))
     = [\<lparr>ba_book_id = 1, ba_author_id = 1, author_order = 1\<rparr>] \<and>
   books_by_google_id (Some ''X1'') one_user_db = [] \<and>
   fst (track_book pg0 1 (x1_req\<lparr>b_title := None\<rparr>) one_user_db)
     = \<lparr>status = 500, headers = [], body = ErrorBody ''Failed to track book''\<rparr> \<and>
   books (snd (track_book pg0 1 (x1_req\<lparr>b_title := None\<rparr>) one_user_db)) = [] \<and>
   fst (track_book pg0 1 (x1_req\<lparr>b_publishedDate := Some ''1965''\<rparr>) one_user_db)
     = \<lparr>status = 500, headers = [], body = ErrorBody ''Failed to track book''\<rparr> \<and>
   books (snd (track_book pg0 1 (x1_req\<lparr>b_publishedDate := Some ''1965''\<rparr>) one_user_db)) = [] \<and>
   fst (track_book pg0 1 (x1_req\<lparr>b_authors := Some [''Jane Doe'', replicate 256 CHR ''a'']\<rparr>)
          one_user_db)
     = \<lparr>status = 500, headers = [], body = ErrorBody ''Failed to track book''\<rparr> \<and>
   authors (snd (track_book pg0 1
                   (x1_req\<lparr>b_authors := Some [''Jane Doe'', replicate 256 CHR ''a'']\<rparr>) one_user_db))
     = [\<lparr>author_id = 1, author_name = ''Jane Doe''\<rparr>] \<and>
   book_authors (snd (track_book pg0 1
                   (x1_req\<lparr>b_authors := Some [''Jane Doe'', replicate 256 CHR ''a'']\<rparr>) one_user_db))
     = [\<lparr>ba_book_id = 1, ba_author_id = 1, author_order = 1\<rparr>]"
  by (simp add: run_defs list_all_iff)

text \<open>Tracking the book X1 twice for the registered user leaves one tracking row.\<close>

theorem tracking_idempotent_witness:
  "\<exists>bk d1 d2.
     track_book pg0 1 x1_req one_user_db = (json 200 (Success ''Book tracked successfully''), d1) \<and>
     track_book pg0 1 x1_req d1 = (json 200 (Success ''Book tracked successfully''), d2) \<and>
     books_by_google_id (Some ''X1'') d2 = [bk] \<and>
     length (filter (\<lambda>r. utb_user_id r = 1 \<and> utb_book_id r = book_id bk) (user_tracked_books d2)) = 1 \<and>
     user_tracked_books d2 = [\<lparr>utb_id = 1, utb_user_id = 1, utb_book_id = 1\<rparr>]"
proof -
  have user: "filter (\<lambda>r. user_id r = 1) (users one_user_db) \<noteq> []"
    by (simp add: one_user_db_def empty_db_def)
  have gid: "b_googleBooksId x1_req = Some ''X1''" by (simp add: x1_req_def)
  have st: "books_by_google_id (Some ''X1'') one_user_db \<noteq> [] \<or>
            book_storable pg0 x1_req \<and> authors_storable x1_req \<and> series_storable x1_req"
    using x1_storable by simp
  from tracking_idempotent[OF one_user_db_ok(2,4) user gid st]
  obtain bk d1 d2 where
    1: "track_book pg0 1 x1_req one_user_db = (json 200 (Success ''Book tracked successfully''), d1)"
    and 2: "track_book pg0 1 x1_req d1 = (json 200 (Success ''Book tracked successfully''), d2)"
    and 3: "books_by_google_id (Some ''X1'') d2 = [bk]"
    and 4: "length (filter (\<lambda>r. utb_user_id r = 1 \<and> utb_book_id r = book_id bk)
                      (user_tracked_books d2)) = 1"
    and 5: "user_tracked_books d2 = user_tracked_books d1"
    by blast
  have d1: "d1 = snd (track_book pg0 1 x1_req one_user_db)" using 1 by simp
  have "user_tracked_books d1 = [\<lparr>utb_id = 1, utb_user_id = 1, utb_book_id = 1\<rparr>]"
    unfolding d1 x1_run by simp
  then have "user_tracked_books d2 = [\<lparr>utb_id = 1, utb_user_id = 1, utb_book_id = 1\<rparr>]"
    using 5 by simp
  then show ?thesis using 1 2 3 4 by blast
qed

text \<open>
  Claim C4 as stated fails: the request of the specification's scenario, which has
  no title, is answered 500 the first time and the second time, and no tracking row
  is written.
\<close>

theorem tracking_without_title_fails_twice:
  "books_by_google_id (Some ''X1'') one_user_db = [] \<and>
   fst (track_book pg0 1 (x1_req\<lparr>b_title := None\<rparr>) one_user_db)
     = \<lparr>status = 500, headers = [], body = ErrorBody ''Failed to track book''\<rparr> \<and>
   fst (track_book pg0 1 (x1_req\<lparr>b_title := None\<rparr>)
          (snd (track_book pg0 1 (x1_req\<lparr>b_title := None\<rparr>) one_user_db)))
     = \<lparr>status = 500, headers = [], body = ErrorBody ''Failed to track book''\<rparr> \<and>
   user_tracked_books
     (snd (track_book pg0 1 (x1_req\<lparr>b_title := None\<rparr>)
             (snd (track_book pg0 1 (x1_req\<lparr>b_title := None\<rparr>) one_user_db)))) = []"
  by (simp add: run_defs)

section \<open>The schema's constraints as an invariant\<close>

lemma put_series_ok:
  assumes "series_ok d" and "fits 255 nm"
  shows "series_ok (snd (put_series nm d)) \<and>
         set (series d) \<subseteq> set (series (snd (put_series nm d))) \<and>
         \<lparr>series_id = fst (put_series nm d), series_name = nm\<rparr>
           \<in> set (series (snd (put_series nm d)))"
proof (cases "filter (\<lambda>a. series_name a = nm) (series d)")
  case Nil
  then have fresh: "nm \<notin> series_name ` set (series d)"
    by (auto simp: filter_empty_conv)
  have ids: "series_id_seq d \<notin> series_id ` set (series d)"
    using assms(1) by (auto simp: series_ok_def)
  show ?thesis
    using assms fresh ids
    by (auto simp: put_series_new[OF Nil] series_ok_def less_Suc_eq)
next
  case (Cons a as)
  have "a \<in> set (filter (\<lambda>a. series_name a = nm) (series d))" using Cons by simp
  then have a: "a \<in> set (series d)" "series_name a = nm" by simp_all
  have "\<lparr>series_id = series_id a, series_name = nm\<rparr> = a"
    using a(2) by (cases a) auto
  then have "\<lparr>series_id = series_id a, series_name = nm\<rparr> \<in> set (series d)"
    using a(1) by metis
  then show ?thesis
    using assms(1) by (auto simp: put_series_old[OF Cons] series_ok_def less_Suc_eq)
qed

lemma insert_book_author_ok:
  assumes "book_authors_ok d" and "b \<in> book_id ` set (books d)" and "a \<in> author_id ` set (authors d)"
  shows "book_authors_ok (insert_book_author b a ord d)"
proof (cases "filter (\<lambda>r. ba_book_id r = b \<and> ba_author_id r = a) (book_authors d) = []")
  case False
  then show ?thesis using assms(1) by (simp add: insert_book_author_def)
next
  case True
  then have "(b, a) \<notin> set (map (\<lambda>r. (ba_book_id r, ba_author_id r)) (book_authors d))"
    by (auto simp: filter_empty_conv)
  then show ?thesis using True assms
    by (simp add: insert_book_author_def book_authors_ok_def)
qed

lemma users_ok_same:
  "users d' = users d \<Longrightarrow> users_id_seq d' = users_id_seq d \<Longrightarrow> users_ok d' = users_ok d"
  by (simp add: users_ok_def)

lemma authors_ok_same:
  "authors d' = authors d \<Longrightarrow> authors_id_seq d' = authors_id_seq d \<Longrightarrow>
   authors_ok d' = authors_ok d"
  by (simp add: authors_ok_def)

lemma series_ok_same:
  "series d' = series d \<Longrightarrow> series_id_seq d' = series_id_seq d \<Longrightarrow> series_ok d' = series_ok d"
  by (simp add: series_ok_def)

lemma books_ok_same:
  "books d' = books d \<Longrightarrow> books_id_seq d' = books_id_seq d \<Longrightarrow> series d' = series d \<Longrightarrow>
   books_ok d' = books_ok d"
  by (simp add: books_ok_def)

lemma book_authors_ok_same:
  "book_authors d' = book_authors d \<Longrightarrow> books d' = books d \<Longrightarrow> authors d' = authors d \<Longrightarrow>
   book_authors_ok d' = book_authors_ok d"
  by (simp add: book_authors_ok_def)

lemma user_tracked_books_ok_same:
  "user_tracked_books d' = user_tracked_books d \<Longrightarrow>
   user_tracked_books_id_seq d' = user_tracked_books_id_seq d \<Longrightarrow>
   users d' = users d \<Longrightarrow> books d' = books d \<Longrightarrow>
   user_tracked_books_ok d' = user_tracked_books_ok d"
  by (simp add: user_tracked_books_ok_def)

lemma put_author_schema:
  assumes "schema_ok d" and "fits 255 nm"
  shows "schema_ok (snd (put_author nm d))"
proof -
  let ?d' = "snd (put_author nm d)"
  note f = put_author_frame[of nm d]
  have ok: "users_ok d" "authors_ok d" "series_ok d" "books_ok d" "book_authors_ok d"
    "user_tracked_books_ok d"
    using assms(1) by (simp_all add: schema_ok_def)
  note u = put_author_ok[OF ok(2) assms(2)]
  have "authors_ok ?d'" using u by simp
  moreover have "users_ok ?d'" using users_ok_same[of ?d' d] f ok(1) by simp
  moreover have "series_ok ?d'" using series_ok_same[of ?d' d] f ok(3) by simp
  moreover have "books_ok ?d'" using books_ok_same[of ?d' d] f ok(4) by simp
  moreover have "user_tracked_books_ok ?d'"
    using user_tracked_books_ok_same[of ?d' d] f ok(6) by simp
  moreover have "book_authors_ok ?d'"
    using ok(5) u f by (auto simp: book_authors_ok_def)
  ultimately show ?thesis by (simp add: schema_ok_def)
qed

lemma insert_book_author_schema:
  assumes "schema_ok d" and "b \<in> book_id ` set (books d)" and "a \<in> author_id ` set (authors d)"
  shows "schema_ok (insert_book_author b a ord d)"
proof -
  let ?d' = "insert_book_author b a ord d"
  note f = insert_book_author_frame[of b a ord d]
  have ok: "users_ok d" "authors_ok d" "series_ok d" "books_ok d" "book_authors_ok d"
    "user_tracked_books_ok d"
    using assms(1) by (simp_all add: schema_ok_def)
  have "book_authors_ok ?d'" by (rule insert_book_author_ok[OF ok(5) assms(2,3)])
  moreover have "authors_ok ?d'" using authors_ok_same[of ?d' d] f ok(2) by simp
  moreover have "users_ok ?d'" using users_ok_same[of ?d' d] f ok(1) by simp
  moreover have "series_ok ?d'" using series_ok_same[of ?d' d] f ok(3) by simp
  moreover have "books_ok ?d'" using books_ok_same[of ?d' d] f ok(4) by simp
  moreover have "user_tracked_books_ok ?d'"
    using user_tracked_books_ok_same[of ?d' d] f ok(6) by simp
  ultimately show ?thesis by (simp add: schema_ok_def)
qed

text \<open>The loop keeps the constraints, wherever it ends.\<close>

lemma link_authors_schema:
  "schema_ok d \<Longrightarrow> b \<in> book_id ` set (books d) \<Longrightarrow> schema_ok (snd (link_authors b i ns d))"
proof (induction ns arbitrary: i d)
  case Nil
  then show ?case by simp
next
  case (Cons n ns)
  show ?case
  proof (cases "varchar 255 n")
    case None
    then show ?thesis using Cons.prems by (simp add: link_authors_turn del: link_authors.simps)
  next
    case (Some v)
    let ?r = "put_author v d"
    let ?d2 = "insert_book_author b (fst ?r) (int i + 1) (snd ?r)"
    have fv: "fits 255 v" using Some by (rule varchar_result)
    have ok1: "schema_ok (snd ?r)" by (rule put_author_schema[OF Cons.prems(1) fv])
    have b1: "b \<in> book_id ` set (books (snd ?r))"
      using Cons.prems(2) by (simp add: put_author_frame)
    have "authors_ok d" using Cons.prems(1) by (simp add: schema_ok_def)
    from put_author_ok[OF this fv]
    have a1: "fst ?r \<in> author_id ` set (authors (snd ?r))" by force
    have ok2: "schema_ok ?d2" by (rule insert_book_author_schema[OF ok1 b1 a1])
    have b2: "b \<in> book_id ` set (books ?d2)" using b1 by (simp add: insert_book_author_frame)
    from Cons.IH[OF ok2 b2, of "Suc i"] show ?thesis
      by (simp add: link_authors_turn Some del: link_authors.simps)
  qed
qed

lemma handle_authors_schema:
  "schema_ok d \<Longrightarrow> b \<in> book_id ` set (books d) \<Longrightarrow>
   schema_ok (snd (handle_authors b as d))"
  by (simp add: handle_authors_def link_authors_schema split: option.splits)

lemma nullable_result:
  "nullable (varchar n) x = Some y \<Longrightarrow> (case y of None \<Rightarrow> True | Some v \<Rightarrow> fits n v)"
  by (auto simp: nullable_def split: option.splits dest: varchar_result)

lemma put_book_schema:
  assumes "schema_ok d"
    and "case g of None \<Rightarrow> True | Some v \<Rightarrow> fits 255 v"
    and "case t of None \<Rightarrow> True | Some v \<Rightarrow> fits 500 v"
    and "case c of None \<Rightarrow> True | Some v \<Rightarrow> fits 500 v"
  shows "schema_ok (snd (put_book g t c p r d)) \<and>
         book_id ` set (books d) \<subseteq> book_id ` set (books (snd (put_book g t c p r d))) \<and>
         (\<forall>b. fst (put_book g t c p r d) = Inr b \<longrightarrow>
            b \<in> book_id ` set (books (snd (put_book g t c p r d))))"
proof -
  have ok: "users_ok d" "authors_ok d" "series_ok d" "books_ok d" "book_authors_ok d"
    "user_tracked_books_ok d"
    using assms(1) by (simp_all add: schema_ok_def)
  let ?d0 = "d\<lparr>books_id_seq := Suc (books_id_seq d)\<rparr>"
  have d0: "schema_ok ?d0"
    using ok by (auto simp: schema_ok_def users_ok_def authors_ok_def series_ok_def books_ok_def
        book_authors_ok_def user_tracked_books_ok_def less_Suc_eq)
  show ?thesis
  proof (cases "t = None \<or> books_by_google_id g d \<noteq> []")
    case True
    then have "snd (put_book g t c p r d) = ?d0" "\<forall>b. fst (put_book g t c p r d) \<noteq> Inr b"
      by (auto simp: put_book_def Let_def split: option.splits)
    then show ?thesis using d0 by simp
  next
    case False
    then obtain tt where tt: "t = Some tt" and none: "books_by_google_id g d = []" by auto
    let ?row = "\<lparr>book_id = books_id_seq d, google_books_id = g, book_title = tt, cover_url = c,
                  published_date = p, release_date = r, book_series_id = None\<rparr>"
    let ?d1 = "d\<lparr>books_id_seq := Suc (books_id_seq d), books := books d @ [?row]\<rparr>"
    have res: "put_book g t c p r d = (Inr (books_id_seq d), ?d1)"
      using tt none by (simp add: put_book_def Let_def)
    have fresh_id: "books_id_seq d \<notin> book_id ` set (books d)"
      using ok(4) by (auto simp: books_ok_def)
    have fresh_g: "g \<noteq> None \<longrightarrow> g \<notin> google_books_id ` set (books d)"
      using none by (cases g) (auto simp: books_by_google_id_def filter_empty_conv)
    have gids: "distinct (filter (\<lambda>x. x \<noteq> None) (map google_books_id (books d @ [?row])))"
      using ok(4) fresh_g by (auto simp: books_ok_def)
    have types: "\<forall>b\<in>set (books d @ [?row]).
        (case google_books_id b of None \<Rightarrow> True | Some g \<Rightarrow> fits 255 g) \<and>
        fits 500 (book_title b) \<and>
        (case cover_url b of None \<Rightarrow> True | Some c \<Rightarrow> fits 500 c)"
      using ok(4) assms(2,3,4) tt by (auto simp: books_ok_def)
    have b1: "books_ok ?d1"
      unfolding books_ok_def
    proof (intro conjI)
      show "distinct (map book_id (books ?d1))"
        using ok(4) fresh_id by (simp add: books_ok_def)
      show "\<forall>b\<in>set (books ?d1). book_id b < books_id_seq ?d1"
        using ok(4) by (auto simp: books_ok_def less_Suc_eq)
      show "distinct (filter (\<lambda>g. g \<noteq> None) (map google_books_id (books ?d1)))"
        using gids by simp
      show "\<forall>b\<in>set (books ?d1). \<forall>s. book_series_id b = Some s \<longrightarrow> s \<in> series_id ` set (series ?d1)"
        using ok(4) by (auto simp: books_ok_def)
      show "\<forall>b\<in>set (books ?d1).
        (case google_books_id b of None \<Rightarrow> True | Some g \<Rightarrow> fits 255 g) \<and>
        fits 500 (book_title b) \<and>
        (case cover_url b of None \<Rightarrow> True | Some c \<Rightarrow> fits 500 c)"
        using types by simp
    qed
    have ba1: "book_authors_ok ?d1" using ok(5) by (auto simp: book_authors_ok_def)
    have t1: "user_tracked_books_ok ?d1" using ok(6) by (auto simp: user_tracked_books_ok_def)
    have "schema_ok ?d1"
      using ok b1 ba1 t1
      by (simp add: schema_ok_def users_ok_def authors_ok_def series_ok_def)
    then show ?thesis unfolding res by auto
  qed
qed

lemma insert_book_schema:
  assumes "schema_ok d"
  shows "schema_ok (snd (insert_book pg g t c p r d)) \<and>
         book_id ` set (books d) \<subseteq> book_id ` set (books (snd (insert_book pg g t c p r d))) \<and>
         (\<forall>b. fst (insert_book pg g t c p r d) = Inr b \<longrightarrow>
            b \<in> book_id ` set (books (snd (insert_book pg g t c p r d))))"
proof (cases "\<exists>g' t' c' p' r'. nullable (varchar 255) g = Some g' \<and>
      nullable (varchar 500) t = Some t' \<and> nullable (varchar 500) c = Some c' \<and>
      nullable (date_in pg) p = Some p' \<and> nullable (date_in pg) r = Some r'")
  case True
  then obtain g' t' c' p' r' where v: "nullable (varchar 255) g = Some g'"
      "nullable (varchar 500) t = Some t'" "nullable (varchar 500) c = Some c'"
      "nullable (date_in pg) p = Some p'" "nullable (date_in pg) r = Some r'"
    by blast
  have e: "insert_book pg g t c p r d = put_book g' t' c' p' r' d"
    by (simp add: insert_book_def v)
  show ?thesis
    unfolding e
    by (rule put_book_schema[OF assms nullable_result[OF v(1)] nullable_result[OF v(2)]
          nullable_result[OF v(3)]])
next
  case False
  then have "insert_book pg g t c p r d = (Inl DataException, d)"
    by (auto simp: insert_book_def split: option.splits)
  then show ?thesis using assms by simp
qed

lemma update_book_series_maps:
  "map book_id (books (update_book_series s b d)) = map book_id (books d)"
  "map google_books_id (books (update_book_series s b d)) = map google_books_id (books d)"
  by (simp_all add: update_book_series_def comp_def)

lemma series_step_schema:
  assumes "schema_ok d" and "fits 255 sr"
  shows "schema_ok (update_book_series (fst (put_series sr d)) b (snd (put_series sr d))) \<and>
         map book_id (books (update_book_series (fst (put_series sr d)) b (snd (put_series sr d))))
           = map book_id (books d)"
proof -
  let ?r = "put_series sr d"
  let ?d' = "update_book_series (fst ?r) b (snd ?r)"
  have ok: "users_ok d" "authors_ok d" "series_ok d" "books_ok d" "book_authors_ok d"
    "user_tracked_books_ok d"
    using assms(1) by (simp_all add: schema_ok_def)
  note s = put_series_ok[OF ok(3) assms(2)]
  note fu = update_book_series_frame[of "fst ?r" b "snd ?r"]
  note fs = put_series_frame[of sr d]
  note m = update_book_series_maps[of "fst ?r" b "snd ?r"]
  have ids: "map book_id (books ?d') = map book_id (books d)" using m fs by simp
  have gids: "map google_books_id (books ?d') = map google_books_id (books d)" using m fs by simp
  have set_ids: "book_id ` set (books ?d') = book_id ` set (books d)"
    using ids by (metis set_map)
  have sid: "fst ?r \<in> series_id ` set (series (snd ?r))" using s by force
  have rows: "\<exists>y\<in>set (books d). x = (if book_id y = b then y\<lparr>book_series_id := Some (fst ?r)\<rparr> else y)"
    if "x \<in> set (books ?d')" for x
    using that fs by (auto simp: update_book_series_def)
  have "users_ok ?d'" using users_ok_same[of ?d' d] fu fs ok(1) by simp
  moreover have "authors_ok ?d'" using authors_ok_same[of ?d' d] fu fs ok(2) by simp
  moreover have "series_ok ?d'" using series_ok_same[of ?d' "snd ?r"] fu s by simp
  moreover have "books_ok ?d'"
    unfolding books_ok_def
  proof (intro conjI)
    show "distinct (map book_id (books ?d'))" using ids ok(4) by (simp add: books_ok_def)
    show "\<forall>x\<in>set (books ?d'). book_id x < books_id_seq ?d'"
    proof
      fix x assume "x \<in> set (books ?d')"
      then have "book_id x \<in> book_id ` set (books d)" using set_ids by blast
      then show "book_id x < books_id_seq ?d'" using ok(4) fu fs by (auto simp: books_ok_def)
    qed
    show "distinct (filter (\<lambda>g. g \<noteq> None) (map google_books_id (books ?d')))"
      using gids ok(4) by (simp add: books_ok_def)
    show "\<forall>x\<in>set (books ?d'). \<forall>k. book_series_id x = Some k \<longrightarrow> k \<in> series_id ` set (series ?d')"
    proof (intro ballI allI impI)
      fix x k assume x: "x \<in> set (books ?d')" and k: "book_series_id x = Some k"
      from rows[OF x] obtain y where y: "y \<in> set (books d)"
        and xy: "x = (if book_id y = b then y\<lparr>book_series_id := Some (fst ?r)\<rparr> else y)"
        by auto
      show "k \<in> series_id ` set (series ?d')"
      proof (cases "book_id y = b")
        case True
        then have "k = fst ?r" using xy k by simp
        then show ?thesis using sid fu by simp
      next
        case False
        then have "book_series_id y = Some k" using xy k by simp
        then have "k \<in> series_id ` set (series d)" using ok(4) y by (auto simp: books_ok_def)
        then show ?thesis using s fu by auto
      qed
    qed
    show "\<forall>x\<in>set (books ?d').
        (case google_books_id x of None \<Rightarrow> True | Some g \<Rightarrow> fits 255 g) \<and>
        fits 500 (book_title x) \<and>
        (case cover_url x of None \<Rightarrow> True | Some c \<Rightarrow> fits 500 c)"
    proof
      fix x assume x: "x \<in> set (books ?d')"
      from rows[OF x] obtain y where y: "y \<in> set (books d)"
        and xy: "x = (if book_id y = b then y\<lparr>book_series_id := Some (fst ?r)\<rparr> else y)"
        by auto
      have "(case google_books_id y of None \<Rightarrow> True | Some g \<Rightarrow> fits 255 g) \<and>
        fits 500 (book_title y) \<and>
        (case cover_url y of None \<Rightarrow> True | Some c \<Rightarrow> fits 500 c)"
        using ok(4) y by (simp add: books_ok_def)
      then show "(case google_books_id x of None \<Rightarrow> True | Some g \<Rightarrow> fits 255 g) \<and>
        fits 500 (book_title x) \<and>
        (case cover_url x of None \<Rightarrow> True | Some c \<Rightarrow> fits 500 c)"
        using xy by (cases "book_id y = b") simp_all
    qed
  qed
  moreover have "book_authors_ok ?d'"
    using ok(5) set_ids fu fs by (simp add: book_authors_ok_def)
  moreover have "user_tracked_books_ok ?d'"
    using ok(6) set_ids fu fs by (simp add: user_tracked_books_ok_def)
  ultimately show ?thesis using ids by (simp add: schema_ok_def)
qed

lemma handle_series_schema:
  assumes "schema_ok d"
  shows "schema_ok (snd (handle_series b sr d)) \<and>
         map book_id (books (snd (handle_series b sr d))) = map book_id (books d)"
proof (cases "\<exists>s v. sr = Some s \<and> s \<noteq> [] \<and> s \<noteq> ''Standalone'' \<and> varchar 255 s = Some v")
  case True
  then obtain s v where s: "sr = Some s" "s \<noteq> []" "s \<noteq> ''Standalone''" "varchar 255 s = Some v"
    by blast
  have "snd (handle_series b sr d)
          = update_book_series (fst (put_series v d)) b (snd (put_series v d))"
    using s by (simp add: handle_series_def upsert_series_def)
  then show ?thesis using series_step_schema[OF assms varchar_result[OF s(4)], of b] by simp
next
  case False
  then have "snd (handle_series b sr d) = d"
    by (auto simp: handle_series_def upsert_series_def split: option.splits)
  then show ?thesis using assms by simp
qed

lemma ensure_book_schema:
  assumes "schema_ok d"
  shows "schema_ok (snd (ensure_book pg req d)) \<and>
         (\<forall>b. fst (ensure_book pg req d) = Inr b \<longrightarrow>
            b \<in> book_id ` set (books (snd (ensure_book pg req d))))"
proof (cases "select_book_by_google_id (b_googleBooksId req) d")
  case (Inl err)
  then show ?thesis using assms by (simp add: ensure_book_def)
next
  case (Inr rows)
  show ?thesis
  proof (cases rows)
    case (Cons bk rest)
    have "bk \<in> set (books_by_google_id (b_googleBooksId req) d)"
      using Inr Cons by (auto simp: select_book_by_google_id_def split: option.splits if_splits)
    then have "bk \<in> set (books d)"
      by (cases "b_googleBooksId req") (simp_all add: books_by_google_id_def)
    then show ?thesis using Inr Cons assms by (simp add: ensure_book_def)
  next
    case Nil
    let ?ins = "insert_book pg (b_googleBooksId req) (b_title req) (b_cover req)
                  (b_publishedDate req) (b_releaseDate req) d"
    note i = insert_book_schema[OF assms, of pg "b_googleBooksId req" "b_title req" "b_cover req"
        "b_publishedDate req" "b_releaseDate req"]
    obtain r1 d1 where ins: "?ins = (r1, d1)" by (cases ?ins)
    have ok1: "schema_ok d1" using i ins by simp
    show ?thesis
    proof (cases r1)
      case (Inl err)
      then have "ensure_book pg req d = (Inl err, d1)"
        using Inr Nil ins by (simp add: ensure_book_def)
      then show ?thesis using ok1 by simp
    next
      case b: (Inr b)
      have b1: "b \<in> book_id ` set (books d1)" using i ins b by simp
      obtain r2 d2 where au: "handle_authors b (b_authors req) d1 = (r2, d2)"
        by (cases "handle_authors b (b_authors req) d1")
      have ok2: "schema_ok d2"
        using handle_authors_schema[OF ok1 b1, of "b_authors req"] au by simp
      have b2: "b \<in> book_id ` set (books d2)"
        using b1 handle_authors_frame[of b "b_authors req" d1] au by simp
      show ?thesis
      proof (cases r2)
        case (Inl err)
        then have "ensure_book pg req d = (Inl err, d2)"
          using Inr Nil ins b au by (simp add: ensure_book_def)
        then show ?thesis using ok2 by simp
      next
        case linked: (Inr linked)
        obtain r3 d3 where se: "handle_series b (b_series req) d2 = (r3, d3)"
          by (cases "handle_series b (b_series req) d2")
        note hs = handle_series_schema[OF ok2, of b "b_series req"]
        have ok3: "schema_ok d3" using hs se by simp
        have "map book_id (books d3) = map book_id (books d2)" using hs se by simp
        then have b3: "b \<in> book_id ` set (books d3)" using b2 by (metis set_map)
        have "ensure_book pg req d = (case r3 of Inl err \<Rightarrow> Inl err | Inr x \<Rightarrow> Inr b, d3)"
          using Inr Nil ins b au linked se by (cases r3) (simp_all add: ensure_book_def)
        then show ?thesis using ok3 b3 by (cases r3) simp_all
      qed
    qed
  qed
qed

lemma insert_user_tracked_book_schema:
  assumes "schema_ok d" and "b \<in> book_id ` set (books d)"
  shows "schema_ok (snd (insert_user_tracked_book u b d))"
proof -
  have ok: "users_ok d" "authors_ok d" "series_ok d" "books_ok d" "book_authors_ok d"
    "user_tracked_books_ok d"
    using assms by (simp_all add: schema_ok_def)
  let ?d0 = "d\<lparr>user_tracked_books_id_seq := Suc (user_tracked_books_id_seq d)\<rparr>"
  have d0: "schema_ok ?d0"
    using ok by (auto simp: schema_ok_def users_ok_def authors_ok_def series_ok_def books_ok_def
        book_authors_ok_def user_tracked_books_ok_def less_Suc_eq)
  show ?thesis
  proof (cases "filter (\<lambda>r. utb_user_id r = u \<and> utb_book_id r = b) (user_tracked_books d) \<noteq> []
                \<or> filter (\<lambda>r. user_id r = u) (users d) = []")
    case True
    then have "snd (insert_user_tracked_book u b d) = ?d0"
      by (auto simp: insert_user_tracked_book_def Let_def)
    then show ?thesis using d0 by simp
  next
    case False
    let ?row = "\<lparr>utb_id = user_tracked_books_id_seq d, utb_user_id = u, utb_book_id = b\<rparr>"
    let ?d1 = "d\<lparr>user_tracked_books_id_seq := Suc (user_tracked_books_id_seq d),
                  user_tracked_books := user_tracked_books d @ [?row]\<rparr>"
    have res: "snd (insert_user_tracked_book u b d) = ?d1"
      using False by (simp add: insert_user_tracked_book_def Let_def)
    have pair: "(u, b) \<notin> set (map (\<lambda>r. (utb_user_id r, utb_book_id r)) (user_tracked_books d))"
      using False by (auto simp: filter_empty_conv)
    have user: "u \<in> user_id ` set (users d)"
      using False by (auto simp: filter_empty_conv)
    have fresh: "user_tracked_books_id_seq d \<notin> utb_id ` set (user_tracked_books d)"
      using ok(6) by (auto simp: user_tracked_books_ok_def)
    have "user_tracked_books_ok ?d1"
      using ok(6) pair user fresh assms(2)
      by (auto simp: user_tracked_books_ok_def less_Suc_eq)
    then have "schema_ok ?d1"
      using ok by (simp add: schema_ok_def users_ok_def authors_ok_def series_ok_def books_ok_def
          book_authors_ok_def)
    then show ?thesis using res by simp
  qed
qed

lemma schema_ok_empty: "schema_ok empty_db"
  by (simp add: schema_ok_def users_ok_def authors_ok_def series_ok_def books_ok_def
      book_authors_ok_def user_tracked_books_ok_def empty_db_def)

lemma track_book_schema:
  assumes "schema_ok d"
  shows "schema_ok (snd (track_book pg u req d))"
proof (cases "ensure_book pg req d")
  case (Pair r e1)
  note e = ensure_book_schema[OF assms, of pg req]
  show ?thesis
  proof (cases r)
    case (Inl err)
    then show ?thesis using Pair e by (simp add: track_book_def)
  next
    case (Inr b)
    then have ok1: "schema_ok e1" and b1: "b \<in> book_id ` set (books e1)"
      using Pair e by simp_all
    have "snd (track_book pg u req d) = snd (insert_user_tracked_book u b e1)"
      using Pair Inr by (simp add: track_book_def split: prod.splits sum.splits)
    then show ?thesis using insert_user_tracked_book_schema[OF ok1 b1] by simp
  qed
qed

lemma put_user_schema:
  assumes "schema_ok d" and "fits 255 em" and "fits 255 ph"
    and "case nm of None \<Rightarrow> True | Some n \<Rightarrow> fits 255 n"
  shows "schema_ok (snd (put_user em ph nm now d))"
proof -
  have ok: "users_ok d" "authors_ok d" "series_ok d" "books_ok d" "book_authors_ok d"
    "user_tracked_books_ok d"
    using assms(1) by (simp_all add: schema_ok_def)
  let ?d0 = "d\<lparr>users_id_seq := Suc (users_id_seq d)\<rparr>"
  have rest: "authors_ok x \<and> series_ok x \<and> books_ok x \<and> book_authors_ok x"
    if "authors x = authors d" "authors_id_seq x = authors_id_seq d" "series x = series d"
      "series_id_seq x = series_id_seq d" "books x = books d" "books_id_seq x = books_id_seq d"
      "book_authors x = book_authors d" for x
    using that ok authors_ok_same[of x d] series_ok_same[of x d] books_ok_same[of x d]
      book_authors_ok_same[of x d]
    by simp
  show ?thesis
  proof (cases "filter (\<lambda>r. user_email r = em) (users d) \<noteq> []")
    case True
    then have res: "snd (put_user em ph nm now d) = ?d0"
      by (simp add: put_user_def Let_def)
    have "users_ok ?d0" using ok(1) by (auto simp: users_ok_def less_Suc_eq)
    moreover have "user_tracked_books_ok ?d0"
      using ok(6) by (simp add: user_tracked_books_ok_def)
    ultimately show ?thesis using rest[of ?d0] by (simp add: res schema_ok_def)
  next
    case False
    then have fresh: "em \<notin> user_email ` set (users d)" by (auto simp: filter_empty_conv)
    have id: "users_id_seq d \<notin> user_id ` set (users d)" using ok(1) by (auto simp: users_ok_def)
    let ?row = "\<lparr>user_id = users_id_seq d, user_email = em, password_hash = ph,
                  user_name = nm, created_at = now\<rparr>"
    let ?d1 = "d\<lparr>users_id_seq := Suc (users_id_seq d), users := users d @ [?row]\<rparr>"
    have res: "snd (put_user em ph nm now d) = ?d1"
      using False by (simp add: put_user_def Let_def)
    have "users_ok ?d1"
      using ok(1) fresh id assms(2,3,4) by (auto simp: users_ok_def less_Suc_eq)
    moreover have "user_tracked_books_ok ?d1"
      using ok(6) by (auto simp: user_tracked_books_ok_def)
    ultimately show ?thesis using rest[of ?d1] by (simp add: res schema_ok_def)
  qed
qed

lemma insert_user_schema:
  assumes "schema_ok d"
  shows "schema_ok (snd (insert_user em ph nm now d))"
proof (cases "\<exists>em' ph' nm'. varchar 255 em = Some em' \<and> varchar 255 ph = Some ph' \<and>
                nullable (varchar 255) nm = Some nm'")
  case True
  then obtain em' ph' nm' where v: "varchar 255 em = Some em'" "varchar 255 ph = Some ph'"
      "nullable (varchar 255) nm = Some nm'"
    by blast
  have "insert_user em ph nm now d = put_user em' ph' nm' now d"
    by (simp add: insert_user_def v)
  then show ?thesis
    using put_user_schema[OF assms varchar_result[OF v(1)] varchar_result[OF v(2)]
        nullable_result[OF v(3)], of now]
    by simp
next
  case False
  then have "insert_user em ph nm now d = (Inl DataException, d)"
    by (auto simp: insert_user_def split: option.splits)
  then show ?thesis using assms by simp
qed

lemma register_schema:
  assumes "schema_ok d"
  shows "schema_ok (snd (register a now req d))"
proof -
  let ?em = "normalizeEmail a (field_string (r_email req))"
  let ?nm = "case r_name req of None \<Rightarrow> None
             | Some n \<Rightarrow> if js_trim n = [] then None else Some (js_trim n)"
  let ?i = "insert_user ?em (hashPassword a (field_string (r_password req))) ?nm now d"
  show ?thesis
  proof (cases "register_errors a req \<noteq> [] \<or> select_user_by_email ?em d \<noteq> []")
    case True
    then have "snd (register a now req d) = d" by (auto simp: register_def Let_def)
    then show ?thesis using assms by simp
  next
    case False
    obtain r d1 where i: "?i = (r, d1)" by (cases ?i)
    have "snd (register a now req d) = d1"
      using False i by (cases r) (simp_all add: register_def Let_def)
    moreover have "schema_ok d1"
      using insert_user_schema[OF assms, of ?em "hashPassword a (field_string (r_password req))"
          ?nm now] i
      by simp
    ultimately show ?thesis by simp
  qed
qed

text \<open>
  The constraints of the schema hold in the empty database, and registration and
  tracking a book preserve them, whatever the request and whether it succeeds or
  fails, and wherever a failing request stops: the states in which the properties
  above assume them are the states the handlers reach.
\<close>

theorem schema_preserved:
  "schema_ok empty_db \<and>
   (schema_ok d \<longrightarrow>
      schema_ok (snd (register a now req d)) \<and> schema_ok (snd (track_book pg u treq d)))"
  using schema_ok_empty register_schema[of d a now req] track_book_schema[of d pg u treq] by simp

text \<open>A registration and a tracking request on the empty database.\<close>

theorem schema_preserved_witness:
  "schema_ok (snd (register auth0 5 \<lparr>r_email = Some ''a@b.com'', r_password = Some ''secret1'',
                     r_name = None\<rparr> empty_db)) \<and>
   schema_ok (snd (track_book pg0 1 x1_req empty_db))"
  using schema_preserved[of empty_db auth0 5
      "\<lparr>r_email = Some ''a@b.com'', r_password = Some ''secret1'', r_name = None\<rparr>" pg0 1 x1_req]
  by simp

section \<open>The tracking route behind its guard\<close>

text \<open>
  A track-book request reaches the handler exactly when its \<^verbatim>\<open>Authorization\<close> header
  carries, after the first space, a token that \<^verbatim>\<open>verifyToken\<close> accepts; the handler then
  runs for the user id of the token. Without such a token the answer is 401 or 403
  and the database is not touched.
\<close>

theorem tracking_needs_a_valid_token:
  "(bearer_token h = None \<longrightarrow>
      track_book_route pg v h req d = (json 401 (ErrorBody ''Access token required''), d)) \<and>
   (\<forall>t. bearer_token h = Some t \<and> v t = None \<longrightarrow>
      track_book_route pg v h req d = (json 403 (ErrorBody ''Invalid or expired token''), d)) \<and>
   (\<forall>t c. bearer_token h = Some t \<and> v t = Some c \<longrightarrow>
      track_book_route pg v h req d = track_book pg (tp_userId c) req d)"
  by (simp add: track_book_route_def authenticateToken_def)

text \<open>No header, a header without a second part, and a token that verifies for user 1.\<close>

theorem tracking_needs_a_valid_token_witness:
  "track_book_route pg0 (\<lambda>t. None) None x1_req one_user_db
     = (json 401 (ErrorBody ''Access token required''), one_user_db) \<and>
   track_book_route pg0 (\<lambda>t. None) (Some ''Bearer'') x1_req one_user_db
     = (json 401 (ErrorBody ''Access token required''), one_user_db) \<and>
   track_book_route pg0 (\<lambda>t. None) (Some ''Bearer abc'') x1_req one_user_db
     = (json 403 (ErrorBody ''Invalid or expired token''), one_user_db) \<and>
   track_book_route pg0 (\<lambda>t. Some \<lparr>tp_userId = 1, tp_email = ''a@b.com''\<rparr>) (Some ''Bearer abc'')
       x1_req one_user_db
     = track_book pg0 1 x1_req one_user_db"
proof -
  have 1: "bearer_token None = None" "bearer_token (Some ''Bearer'') = None"
    "bearer_token (Some ''Bearer abc'') = Some ''abc''"
    by (simp_all add: bearer_token_def)
  show ?thesis
    using tracking_needs_a_valid_token[of None pg0 "\<lambda>t. None" x1_req one_user_db]
      tracking_needs_a_valid_token[of "Some ''Bearer''" pg0 "\<lambda>t. None" x1_req one_user_db]
      tracking_needs_a_valid_token[of "Some ''Bearer abc''" pg0 "\<lambda>t. None" x1_req one_user_db]
      tracking_needs_a_valid_token[of "Some ''Bearer abc''" pg0
        "\<lambda>t. Some \<lparr>tp_userId = 1, tp_email = ''a@b.com''\<rparr>" x1_req one_user_db]
    by (simp add: 1)
qed

end
